theory Spec2Isabelle
  imports Main "HOL-Library.Sublist"
begin

section \<open>Python string operations used by \<open>pdf2md.py\<close>\<close>

text \<open>
  A Python \<open>str\<close> is modelled as a list of characters. The operations below are
  polymorphic in the character type; the program's texts are \<open>string\<close>s whose
  non-ASCII glyphs are written as their UTF-8 bytes. All needles the program searches
  for are ASCII, so searching the bytes finds what searching the code points finds.
  The test \<open>sub in s\<close> is \<^const>\<open>sublist\<close> of the library: some \<open>ps\<close> and \<open>ss\<close> with
  \<open>s = ps @ sub @ ss\<close>.
\<close>

text \<open>\<open>s.replace(old, new)\<close>: the occurrences of \<open>old\<close> found scanning from the left,
  without overlap, each replaced by \<open>new\<close>; an empty \<open>old\<close> matches before every
  character and at the end.\<close>

function str_replace :: "'a list \<Rightarrow> 'a list \<Rightarrow> 'a list \<Rightarrow> 'a list" where
  "str_replace old new s =
     (if old = [] then new @ concat (map (\<lambda>c. c # new) s)
      else if s = [] then []
      else if prefix old s then new @ str_replace old new (drop (length old) s)
      else hd s # str_replace old new (tl s))"
  by pat_completeness auto
termination
  by (relation "measure (\<lambda>(old, new, s). length s)") auto

declare str_replace.simps [simp del]

text \<open>\<open>s.count(sub)\<close>: the number of occurrences found the same way.\<close>

function str_count :: "'a list \<Rightarrow> 'a list \<Rightarrow> nat" where
  "str_count sub s =
     (if sub = [] then length s + 1
      else if s = [] then 0
      else if prefix sub s then 1 + str_count sub (drop (length sub) s)
      else str_count sub (tl s))"
  by pat_completeness auto
termination
  by (relation "measure (\<lambda>(sub, s). length s)") auto

declare str_count.simps [simp del]

text \<open>\<open>s.split(sep)\<close>: the pieces between the occurrences of \<open>sep\<close>, found the same way;
  \<open>cur\<close> is the piece being read. An empty separator raises \<open>ValueError\<close>.\<close>

function split_scan :: "'a list \<Rightarrow> 'a list \<Rightarrow> 'a list \<Rightarrow> 'a list list" where
  "split_scan sep cur s =
     (if s = [] then [cur]
      else if sep \<noteq> [] \<and> prefix sep s then cur # split_scan sep [] (drop (length sep) s)
      else split_scan sep (cur @ [hd s]) (tl s))"
  by pat_completeness auto
termination
  by (relation "measure (\<lambda>(sep, cur, s). length s)") auto

declare split_scan.simps [simp del]

definition str_split :: "string \<Rightarrow> string \<Rightarrow> string + string list" where
  "str_split sep s = (if sep = [] then Inl ''empty separator'' else Inr (split_scan sep [] s))"

text \<open>\<open>sep.join(xs)\<close>, as line 121 of \<open>client.py\<close> builds the text that line 170 splits.\<close>

fun str_join :: "'a list \<Rightarrow> 'a list list \<Rightarrow> 'a list" where
  "str_join sep [] = []"
| "str_join sep [x] = x"
| "str_join sep (x # y # ys) = x @ sep @ str_join sep (y # ys)"

text \<open>The decimal text of a non-negative integer, as an f-string prints it.\<close>

definition digit :: "nat \<Rightarrow> char" where
  "digit d = ''0123456789'' ! d"

function str_nat :: "nat \<Rightarrow> string" where
  "str_nat n = (if n < 10 then [digit n] else str_nat (n div 10) @ [digit (n mod 10)])"
  by pat_completeness auto
termination
  by (relation "measure id") auto

declare str_nat.simps [simp del]

text \<open>\<open>os.path.basename\<close> (POSIX): what follows the last slash.\<close>

definition basename :: "string \<Rightarrow> string" where
  "basename p = rev (takeWhile (\<lambda>c. c \<noteq> CHR ''/'') (rev p))"

text \<open>\<open>enumerate\<close>.\<close>

definition enumerate0 :: "'a list \<Rightarrow> (nat \<times> 'a) list" where
  "enumerate0 xs = zip [0 ..< length xs] xs"

section \<open>The tag sanitizer: \<open>process_tags\<close>\<close>

definition process_tags :: "string \<Rightarrow> string" where
  "process_tags content =
     (let content = str_replace ''<img>'' ''&lt;img&gt;'' content;
          content = str_replace ''</img>'' ''&lt;/img&gt;'' content;
          content = str_replace ''<watermark>'' ''&lt;watermark&gt;'' content;
          content = str_replace ''</watermark>'' ''&lt;/watermark&gt;'' content;
          content = str_replace ''<page_number>'' ''&lt;page_number&gt;'' content;
          content = str_replace ''</page_number>'' ''&lt;/page_number&gt;'' content;
          content = str_replace ''<signature>'' ''&lt;signature&gt;'' content;
          content = str_replace ''</signature>'' ''&lt;/signature&gt;'' content
      in content)"

section \<open>Texts of the emitted fragments\<close>

definition nl :: string where
  "nl = [CHR 0x0A]"

text \<open>The page separator \<open>"\n\n---\n\n"\<close>.\<close>

definition page_sep :: string where
  "page_sep = nl @ nl @ ''---'' @ nl @ nl"

text \<open>The glyphs, as UTF-8: hourglass U+23F3, check mark U+2705, warning sign U+26A0
  U+FE0F, cross mark U+274C, page U+1F4C4.\<close>

definition glyph_attempt :: string where
  "glyph_attempt = [CHR 0xE2, CHR 0x8F, CHR 0xB3]"

definition glyph_done :: string where
  "glyph_done = [CHR 0xE2, CHR 0x9C, CHR 0x85]"

definition glyph_warning :: string where
  "glyph_warning = [CHR 0xE2, CHR 0x9A, CHR 0xA0, CHR 0xEF, CHR 0xB8, CHR 0x8F]"

definition glyph_error :: string where
  "glyph_error = [CHR 0xE2, CHR 0x9D, CHR 0x8C]"

definition glyph_page :: string where
  "glyph_page = [CHR 0xF0, CHR 0x9F, CHR 0x93, CHR 0x84]"

text \<open>Line 120: the progress header of the VLLM path.\<close>

definition progress_header :: "string \<Rightarrow> nat \<Rightarrow> nat \<Rightarrow> string" where
  "progress_header request_id current_page num_pages =
     glyph_page @ '' **VLLM Conversion Progress** `[Request '' @ request_id
       @ '']` (Processing page '' @ str_nat (min current_page num_pages)
       @ '' of '' @ str_nat num_pages @ '')'' @ nl @ nl"

text \<open>Line 131.\<close>

definition error_message :: "string \<Rightarrow> string \<Rightarrow> string" where
  "error_message request_id e =
     glyph_error @ '' **Error in VLLM processing (Request '' @ request_id @ '')**: '' @ e"

text \<open>Line 136.\<close>

definition no_files_message :: string where
  "no_files_message = ''No files uploaded. Please upload one or more documents.''"

text \<open>Line 149.\<close>

definition init_warning :: "string \<Rightarrow> string" where
  "init_warning e =
     glyph_warning @ '' **Warning**: Could not initialize Mistral OCR client: '' @ e
       @ ''. Falling back to default processing.'' @ page_sep"

text \<open>Line 163.\<close>

definition attempt_notice :: "string \<Rightarrow> string" where
  "attempt_notice file_path =
     glyph_attempt @ '' Attempting Mistral OCR for '' @ basename file_path @ ''...'' @ page_sep"

text \<open>Line 174; \<open>i\<close> is the index \<open>enumerate\<close> gives.\<close>

definition page_header :: "string \<Rightarrow> nat \<Rightarrow> nat \<Rightarrow> string" where
  "page_header file_path i num_pages =
     glyph_page @ '' **Mistral OCR Output** `[File '' @ basename file_path
       @ '']` (Page '' @ str_nat (i + 1) @ '' of '' @ str_nat num_pages @ '')'' @ nl @ nl"

text \<open>Line 182.\<close>

definition mistral_error :: "string \<Rightarrow> string \<Rightarrow> string" where
  "mistral_error file_path e =
     glyph_warning @ '' **Mistral OCR Error for '' @ basename file_path @ ''**: '' @ e
       @ ''. Falling back to VLLM.'' @ page_sep"

text \<open>Line 187.\<close>

definition vllm_notice :: "string \<Rightarrow> string" where
  "vllm_notice file_path =
     glyph_attempt @ '' Using default VLLM model for '' @ basename file_path
       @ '' (converting to images first)...'' @ page_sep"

text \<open>Line 194.\<close>

definition no_images_warning :: "string \<Rightarrow> string" where
  "no_images_warning file_path =
     glyph_warning @ '' Could not convert '' @ basename file_path
       @ '' to images for VLLM processing.'' @ page_sep"

text \<open>Line 204.\<close>

definition fallback_error :: "string \<Rightarrow> string \<Rightarrow> string" where
  "fallback_error file_path e =
     glyph_error @ '' **Error in VLLM fallback for '' @ basename file_path @ ''**: '' @ e
       @ page_sep"

text \<open>Line 206.\<close>

definition finished_message :: "string \<Rightarrow> string" where
  "finished_message file_path =
     glyph_done @ '' Finished processing '' @ basename file_path @ ''.'' @ nl @ nl
       @ ''*****'' @ nl @ nl"

section \<open>The run's surroundings\<close>

text \<open>
  An exception is modelled by its message \<open>str(e)\<close>, the only part the program reads.

  The environment of a run: the value of \<open>MISTRAL_API_KEY\<close> (\<open>None\<close> when unset), and
  what the SDK constructor \<open>Mistral(api_key=...)\<close> does: \<open>Some e\<close> when it raises.
\<close>

record env =
  MISTRAL_API_KEY :: "string option"
  Mistral_raises :: "string option"

text \<open>
  An uploaded file, with what the collaborators answer when called on it. Each is called
  at most once per file, so fixing the answers per file loses nothing:
  \<^item> \<open>name\<close>: \<open>file_obj.name\<close>, the path;
  \<^item> \<open>uuid_file\<close>, \<open>uuid_stream\<close>: the texts of the \<open>uuid.uuid4()\<close> of lines 156 and 106;
  \<^item> \<open>extract_text\<close>: \<open>extract_text_from_file\<close> raises (\<open>Inl\<close>) or returns the Markdown;
  \<^item> \<open>images\<close>: \<open>convert_files_to_images\<close> raises or returns the page image paths;
  \<^item> \<open>markdown_stream\<close>: the chunks \<open>convert_to_markdown_stream\<close> yields, and the exception
    that ends the iteration, if one does. The stream is taken to be finite.
\<close>

record upload =
  name :: string
  uuid_file :: string
  uuid_stream :: string
  extract_text :: "string + string"
  images :: "string + string list"
  markdown_stream :: "string list \<times> string option"

text \<open>
  What a run does, in order: the fragments it yields and the collaborators it calls.
  A fragment carries the statement that yielded it:
  \<^item> \<open>NoFiles\<close> line 136, \<open>InitWarning\<close> 149, \<open>Attempt\<close> 163, \<open>MistralPage\<close> 175 and 177,
    \<open>MistralError\<close> 182, \<open>VllmNotice\<close> 187, \<open>NoImages\<close> 194, \<open>FallbackError\<close> 204,
    \<open>FileComplete\<close> 206;
  \<^item> \<open>VllmChunk\<close> lines 121 and 123, \<open>StreamError\<close> line 132, both passed on by line 201.
\<close>

datatype tag =
  NoFiles | InitWarning | Attempt | MistralPage | MistralError | VllmNotice | NoImages
  | VllmChunk | StreamError | FallbackError | FileComplete

datatype event =
  Yield tag string
  | Call_MistralOCRClient
  | Call_extract_text_from_file string
  | Call_convert_files_to_images "string list"
  | Call_process_images_to_markdown_stream "string list"
  | Call_convert_to_markdown_stream "string list"

section \<open>\<open>client.py\<close>: constructing the hosted OCR client\<close>

text \<open>\<open>if x:\<close> on an optional string.\<close>

definition truthy :: "string option \<Rightarrow> bool" where
  "truthy x = (case x of None \<Rightarrow> False | Some s \<Rightarrow> s \<noteq> [])"

definition MistralOCRClient_init :: "env \<Rightarrow> string + unit" where
  "MistralOCRClient_init e =
     (if \<not> truthy (MISTRAL_API_KEY e)
      then Inl ''MISTRAL_API_KEY environment variable not set (or not found in .env file).''
      else case Mistral_raises e of Some m \<Rightarrow> Inl m | None \<Rightarrow> Inr ())"

section \<open>The VLLM driver: \<open>process_images_to_markdown_stream\<close>\<close>

text \<open>The body of the \<open>for\<close> loop of lines 112 to 127, over the chunks that remain.\<close>

fun stream_loop :: "string \<Rightarrow> nat \<Rightarrow> nat \<Rightarrow> string list \<Rightarrow> event list" where
  "stream_loop request_id num_pages current_page [] = []"
| "stream_loop request_id num_pages current_page (markdown_content_chunk # rest) =
     Yield VllmChunk
       (if num_pages > 1
        then progress_header request_id current_page num_pages
               @ process_tags markdown_content_chunk
        else process_tags markdown_content_chunk)
     # stream_loop request_id num_pages
         (if sublist ''---'' markdown_content_chunk
          then str_count ''---'' markdown_content_chunk + 1
          else current_page)
         rest"

definition process_images_to_markdown_stream ::
  "string list \<Rightarrow> string \<Rightarrow> string \<Rightarrow> string list \<times> string option \<Rightarrow> event list" where
  "process_images_to_markdown_stream images_list request_id_prefix uuid stream =
     (let request_id = request_id_prefix @ ''-'' @ take 8 uuid;
          num_pages = (if images_list \<noteq> [] then length images_list else 0);
          current_page = 1
      in Call_convert_to_markdown_stream images_list
         # stream_loop request_id num_pages current_page (fst stream)
         @ (case snd stream of
              None \<Rightarrow> []
            | Some e \<Rightarrow> [Yield StreamError (error_message request_id e)]))"

section \<open>The orchestrator: \<open>process_uploaded_files_to_markdown\<close>\<close>

text \<open>Lines 161 to 183; the flag returned is \<open>use_vllm_fallback\<close>.\<close>

definition mistral_step :: "upload \<Rightarrow> event list \<times> bool" where
  "mistral_step file_obj =
     (let file_path = name file_obj in
      case extract_text file_obj of
        Inl e \<Rightarrow>
          ([Yield Attempt (attempt_notice file_path),
            Call_extract_text_from_file file_path,
            Yield MistralError (mistral_error file_path e)], True)
      | Inr markdown_output \<Rightarrow>
          (case str_split page_sep markdown_output of
             Inl e \<Rightarrow>
               ([Yield Attempt (attempt_notice file_path),
                 Call_extract_text_from_file file_path,
                 Yield MistralError (mistral_error file_path e)], True)
           | Inr pages \<Rightarrow>
               (let num_pages = length pages in
                ([Yield Attempt (attempt_notice file_path),
                  Call_extract_text_from_file file_path]
                 @ map (\<lambda>(i, page_md).
                          Yield MistralPage
                            (if num_pages > 1
                             then page_header file_path i num_pages @ process_tags page_md
                                    @ page_sep
                             else process_tags page_md))
                       (enumerate0 pages),
                 False))))"

text \<open>Lines 186 to 204; the flag returned tells whether control reaches line 206
  (\<open>False\<close> is the \<open>continue\<close> of line 195).\<close>

definition vllm_step :: "upload \<Rightarrow> event list \<times> bool" where
  "vllm_step file_obj =
     (let file_path = name file_obj;
          request_id = take 8 (uuid_file file_obj) in
      case images file_obj of
        Inl e \<Rightarrow>
          ([Yield VllmNotice (vllm_notice file_path),
            Call_convert_files_to_images [file_path],
            Yield FallbackError (fallback_error file_path e)], True)
      | Inr image_paths \<Rightarrow>
          if image_paths = []
          then ([Yield VllmNotice (vllm_notice file_path),
                 Call_convert_files_to_images [file_path],
                 Yield NoImages (no_images_warning file_path)], False)
          else ([Yield VllmNotice (vllm_notice file_path),
                 Call_convert_files_to_images [file_path],
                 Call_process_images_to_markdown_stream image_paths]
                @ process_images_to_markdown_stream image_paths (request_id @ ''-vllm'')
                    (uuid_stream file_obj) (markdown_stream file_obj),
                True))"

text \<open>One turn of the loop of line 154; \<open>mistral_client\<close> tells whether the client exists.\<close>

definition process_file :: "bool \<Rightarrow> upload \<Rightarrow> event list" where
  "process_file mistral_client file_obj =
     (let (ocr_events, use_vllm_fallback) =
            (if mistral_client then mistral_step file_obj else ([], True));
          (vllm_events, completes) =
            (if use_vllm_fallback then vllm_step file_obj else ([], True))
      in ocr_events @ vllm_events
         @ (if completes then [Yield FileComplete (finished_message (name file_obj))] else []))"

fun files_loop :: "bool \<Rightarrow> upload list \<Rightarrow> event list" where
  "files_loop mistral_client [] = []"
| "files_loop mistral_client (file_obj # rest) =
     process_file mistral_client file_obj @ files_loop mistral_client rest"

text \<open>Lines 140 to 152: the events, and whether \<open>mistral_client\<close> is set afterwards.\<close>

definition init_client :: "env \<Rightarrow> event list \<times> bool" where
  "init_client e =
     (if truthy (MISTRAL_API_KEY e)
      then (case MistralOCRClient_init e of
              Inr u \<Rightarrow> ([Call_MistralOCRClient], True)
            | Inl m \<Rightarrow> ([Call_MistralOCRClient, Yield InitWarning (init_warning m)], False))
      else ([], False))"

text \<open>\<open>files\<close> is \<open>None\<close> when the caller passes \<open>None\<close>.\<close>

definition process_uploaded_files_to_markdown :: "env \<Rightarrow> upload list option \<Rightarrow> event list" where
  "process_uploaded_files_to_markdown e files =
     (case files of
        None \<Rightarrow> [Yield NoFiles no_files_message]
      | Some fs \<Rightarrow>
          if fs = [] then [Yield NoFiles no_files_message]
          else (let (init_events, mistral_client) = init_client e
                in init_events @ files_loop mistral_client fs))"

section \<open>Reading a run\<close>

text \<open>The texts yielded, which is what the consumer receives.\<close>

fun fragments :: "event list \<Rightarrow> string list" where
  "fragments [] = []"
| "fragments (Yield t s # es) = s # fragments es"
| "fragments (_ # es) = fragments es"

text \<open>The texts yielded by the statements of one tag.\<close>

fun tagged :: "tag \<Rightarrow> event list \<Rightarrow> string list" where
  "tagged t [] = []"
| "tagged t (Yield t' s # es) = (if t' = t then s # tagged t es else tagged t es)"
| "tagged t (_ # es) = tagged t es"

text \<open>The collaborator calls of a run, in order.\<close>

fun calls :: "event list \<Rightarrow> event list" where
  "calls [] = []"
| "calls (Yield t s # es) = calls es"
| "calls (c # es) = c # calls es"

text \<open>Whether the client exists after lines 140 to 152.\<close>

definition client_ok :: "env \<Rightarrow> bool" where
  "client_ok e = (truthy (MISTRAL_API_KEY e) \<and> Mistral_raises e = None)"

text \<open>Whether a file takes the VLLM path: there is no client, or the hosted OCR call raises.\<close>

definition fallback :: "bool \<Rightarrow> upload \<Rightarrow> bool" where
  "fallback mistral_client file_obj =
     (if mistral_client then isl (extract_text file_obj) else True)"

text \<open>The page images of a file; none when the rasterizer raises.\<close>

definition page_images :: "upload \<Rightarrow> string list" where
  "page_images file_obj = (case images file_obj of Inl e \<Rightarrow> [] | Inr image_paths \<Rightarrow> image_paths)"

text \<open>The request id the driver prints for a file (lines 156, 200 and 106).\<close>

definition stream_request_id :: "upload \<Rightarrow> string" where
  "stream_request_id file_obj =
     take 8 (uuid_file file_obj) @ ''-vllm'' @ ''-'' @ take 8 (uuid_stream file_obj)"

text \<open>An escape: a token opening with \<open><\<close> replaced by an entity opening with \<open>&\<close>
  that has no \<open><\<close>.\<close>

definition escape :: "string \<Rightarrow> string \<Rightarrow> bool" where
  "escape old new =
     (old \<noteq> [] \<and> new \<noteq> [] \<and> hd old = CHR ''<'' \<and> hd new = CHR ''&''
      \<and> CHR ''<'' \<notin> set new \<and> CHR ''&'' \<notin> set old)"

text \<open>Whether the loop leaves a file at line 195: it takes the VLLM path and the
  rasterizer returns no page image.\<close>

definition skipped :: "bool \<Rightarrow> upload \<Rightarrow> bool" where
  "skipped mistral_client file_obj =
     (fallback mistral_client file_obj \<and> images file_obj = Inr [])"

text \<open>The error fragments of the VLLM path: lines 194, 132 and 204.\<close>

definition vllm_errors :: "event list \<Rightarrow> string list" where
  "vllm_errors es = tagged NoImages es @ tagged StreamError es @ tagged FallbackError es"

text \<open>The error and warning fragments of a file: line 182 and those of the VLLM path.\<close>

definition error_fragments :: "event list \<Rightarrow> string list" where
  "error_fragments es = tagged MistralError es @ vllm_errors es"

text \<open>
  Modelled from the spec: \<open>convert_to_markdown_stream\<close> (\<open>docext.core.pdf2md.pdf2md\<close>) is not
  among the source files. Sections 2 and 4.2 of the specification give its interface: for
  the page images of a file it yields one chunk per page, in page order, and an exception
  raised on the way ends the sequence. So for a file that has page images the stream is
  not silent: it yields a chunk or it raises.
\<close>

definition stream_answers :: "upload \<Rightarrow> bool" where
  "stream_answers file_obj =
     (if page_images file_obj = [] then True else markdown_stream file_obj \<noteq> ([], None))"

section \<open>Sample runs\<close>

text \<open>Environments and uploads on which the statements below are evaluated.\<close>

definition no_key :: env where
  "no_key = \<lparr>MISTRAL_API_KEY = None, Mistral_raises = None\<rparr>"

definition with_key :: env where
  "with_key = \<lparr>MISTRAL_API_KEY = Some ''secret'', Mistral_raises = None\<rparr>"

definition broken_client :: env where
  "broken_client = \<lparr>MISTRAL_API_KEY = Some ''secret'', Mistral_raises = Some ''bad key''\<rparr>"

definition report_pdf :: upload where
  "report_pdf =
     \<lparr>name = ''/tmp/report.pdf'',
      uuid_file = ''3f2b8c1e-0000-4000-8000-000000000000'',
      uuid_stream = ''9d4e7a60-0000-4000-8000-000000000000'',
      extract_text = Inr (''Page1'' @ page_sep @ ''Page2''),
      images = Inr [''/tmp/report_0.png'', ''/tmp/report_1.png'', ''/tmp/report_2.png''],
      markdown_stream = ([''one---'', ''two---'', ''three---''], None)\<rparr>"

definition photo_jpg :: upload where
  "photo_jpg =
     \<lparr>name = ''/tmp/photo.jpg'',
      uuid_file = ''5a6b7c8d-0000-4000-8000-000000000000'',
      uuid_stream = ''1e2f3a4b-0000-4000-8000-000000000000'',
      extract_text = Inl ''Service unavailable'',
      images = Inr [''/tmp/photo.jpg''],
      markdown_stream = ([''A photo''], None)\<rparr>"

definition corrupt_pdf :: upload where
  "corrupt_pdf =
     \<lparr>name = ''/tmp/corrupt.pdf'',
      uuid_file = ''77777777-0000-4000-8000-000000000000'',
      uuid_stream = ''88888888-0000-4000-8000-000000000000'',
      extract_text = Inl ''Bad request'',
      images = Inr [],
      markdown_stream = ([], None)\<rparr>"

definition failing_png :: upload where
  "failing_png =
     \<lparr>name = ''/tmp/scan.png'',
      uuid_file = ''cccccccc-0000-4000-8000-000000000000'',
      uuid_stream = ''dddddddd-0000-4000-8000-000000000000'',
      extract_text = Inl ''Bad request'',
      images = Inr [''/tmp/scan.png''],
      markdown_stream = ([''<img>cat</img>''], Some ''cannot parse <img>'')\<rparr>"

section \<open>Replacing tokens\<close>

lemma str_replace_Nil: "old \<noteq> [] \<Longrightarrow> str_replace old new [] = []"
  by (simp add: str_replace.simps)

lemma str_replace_hit:
  "old \<noteq> [] \<Longrightarrow> s \<noteq> [] \<Longrightarrow> prefix old s \<Longrightarrow>
   str_replace old new s = new @ str_replace old new (drop (length old) s)"
  by (subst str_replace.simps) simp

lemma str_replace_miss:
  "old \<noteq> [] \<Longrightarrow> \<not> prefix old (c # cs) \<Longrightarrow>
   str_replace old new (c # cs) = c # str_replace old new cs"
  by (subst str_replace.simps) simp

lemma prefix_str_replace:
  "old \<noteq> [] \<Longrightarrow> new \<noteq> [] \<Longrightarrow> hd new \<notin> set r \<Longrightarrow>
   prefix r (str_replace old new s) \<Longrightarrow> prefix r s"
proof (induction old new s arbitrary: r rule: str_replace.induct)
  case (1 old new s)
  show ?case
  proof (cases r)
    case Nil
    then show ?thesis by simp
  next
    case (Cons x r')
    show ?thesis
    proof (cases s)
      case Nil
      with "1.prems" Cons show ?thesis by (simp add: str_replace_Nil)
    next
      case (Cons c cs)
      show ?thesis
      proof (cases "prefix old s")
        case True
        with "1.prems" \<open>s = c # cs\<close>
        have "prefix r (new @ str_replace old new (drop (length old) s))"
          by (simp add: str_replace_hit)
        with "1.prems" \<open>r = x # r'\<close> show ?thesis
          by (cases new) (auto simp: prefix_Cons)
      next
        case False
        with "1.prems" \<open>s = c # cs\<close>
        have p: "prefix r (c # str_replace old new cs)"
          by (simp add: str_replace_miss)
        with \<open>r = x # r'\<close> have xc: "x = c" and p': "prefix r' (str_replace old new cs)"
          by simp_all
        from "1.prems" \<open>r = x # r'\<close> have "hd new \<notin> set r'" by simp
        with "1.IH"(2)[of r'] "1.prems" False \<open>s = c # cs\<close> p'
        have "prefix r' cs" by simp
        with xc \<open>r = x # r'\<close> \<open>s = c # cs\<close> show ?thesis by simp
      qed
    qed
  qed
qed

lemma sublist_append_skip:
  "u \<noteq> [] \<Longrightarrow> hd u \<notin> set xs \<Longrightarrow> sublist u (xs @ ys) \<Longrightarrow> sublist u ys"
proof (induction xs)
  case Nil
  then show ?case by simp
next
  case (Cons a xs)
  from Cons.prems have "\<not> prefix u ((a # xs) @ ys)"
    by (cases u) auto
  with Cons.prems have "sublist u (xs @ ys)"
    by (simp add: sublist_Cons_right)
  with Cons show ?case by simp
qed

lemma sublist_str_replace:
  "old \<noteq> [] \<Longrightarrow> new \<noteq> [] \<Longrightarrow> u \<noteq> [] \<Longrightarrow> hd new \<notin> set u \<Longrightarrow> hd u \<notin> set new \<Longrightarrow>
   sublist u (str_replace old new s) \<Longrightarrow> sublist u s"
proof (induction old new s rule: str_replace.induct)
  case (1 old new s)
  show ?case
  proof (cases s)
    case Nil
    with "1.prems" show ?thesis by (simp add: str_replace_Nil)
  next
    case (Cons c cs)
    show ?thesis
    proof (cases "prefix old s")
      case True
      with "1.prems" Cons
      have "sublist u (new @ str_replace old new (drop (length old) s))"
        by (simp add: str_replace_hit)
      with "1.prems" have "sublist u (str_replace old new (drop (length old) s))"
        by (blast intro: sublist_append_skip)
      with "1.IH"(1) "1.prems" True Cons have "sublist u (drop (length old) s)"
        by simp
      then show ?thesis
        by (meson sublist_drop sublist_order.order_trans)
    next
      case False
      with "1.prems" Cons have eq: "str_replace old new s = c # str_replace old new cs"
        by (simp add: str_replace_miss)
      with "1.prems" have "prefix u (str_replace old new s) \<or> sublist u (str_replace old new cs)"
        by (simp add: sublist_Cons_right)
      then show ?thesis
      proof
        assume "prefix u (str_replace old new s)"
        with "1.prems" have "prefix u s" by (blast intro: prefix_str_replace)
        then show ?thesis by simp
      next
        assume "sublist u (str_replace old new cs)"
        with "1.IH"(2) "1.prems" False Cons have "sublist u cs" by simp
        with Cons show ?thesis by (simp add: sublist_Cons_right)
      qed
    qed
  qed
qed

lemma str_replace_removes:
  "old \<noteq> [] \<Longrightarrow> new \<noteq> [] \<Longrightarrow> hd new \<notin> set old \<Longrightarrow> hd old \<notin> set new \<Longrightarrow>
   \<not> sublist old (str_replace old new s)"
proof (induction old new s rule: str_replace.induct)
  case (1 old new s)
  show ?case
  proof (cases s)
    case Nil
    with "1.prems" show ?thesis by (simp add: str_replace_Nil)
  next
    case (Cons c cs)
    show ?thesis
    proof (cases "prefix old s")
      case True
      with "1.IH"(1) "1.prems" Cons
      have "\<not> sublist old (str_replace old new (drop (length old) s))" by simp
      with "1.prems" have "\<not> sublist old (new @ str_replace old new (drop (length old) s))"
        by (blast dest: sublist_append_skip)
      with "1.prems" True Cons show ?thesis by (simp add: str_replace_hit)
    next
      case False
      with "1.prems" Cons have eq: "str_replace old new s = c # str_replace old new cs"
        by (simp add: str_replace_miss)
      from "1.IH"(2) "1.prems" False Cons
      have a: "\<not> sublist old (str_replace old new cs)" by simp
      from "1.prems" False have b: "\<not> prefix old (str_replace old new s)"
        by (blast dest: prefix_str_replace)
      from a b eq show ?thesis by (simp add: sublist_Cons_right)
    qed
  qed
qed

lemma str_replace_absent:
  "old \<noteq> [] \<Longrightarrow> \<not> sublist old s \<Longrightarrow> str_replace old new s = s"
proof (induction s)
  case Nil
  then show ?case by (simp add: str_replace_Nil)
next
  case (Cons c cs)
  then have "\<not> prefix old (c # cs)" and "\<not> sublist old cs"
    by (auto simp: sublist_Cons_right)
  with Cons show ?case by (simp add: str_replace_miss)
qed

lemma escape_kills: "escape old new \<Longrightarrow> \<not> sublist old (str_replace old new s)"
  by (rule str_replace_removes) (simp_all add: escape_def)

lemma escape_keeps:
  "escape old new \<Longrightarrow> escape u v \<Longrightarrow> \<not> sublist u s \<Longrightarrow> \<not> sublist u (str_replace old new s)"
  using sublist_str_replace [of old new u s] by (auto simp: escape_def)

lemma escapes:
  "escape ''<img>'' ''&lt;img&gt;''"
  "escape ''</img>'' ''&lt;/img&gt;''"
  "escape ''<watermark>'' ''&lt;watermark&gt;''"
  "escape ''</watermark>'' ''&lt;/watermark&gt;''"
  "escape ''<page_number>'' ''&lt;page_number&gt;''"
  "escape ''</page_number>'' ''&lt;/page_number&gt;''"
  "escape ''<signature>'' ''&lt;signature&gt;''"
  "escape ''</signature>'' ''&lt;/signature&gt;''"
  by (simp_all add: escape_def)

lemma no_raw_token:
  "\<not> sublist ''<img>'' (process_tags x)"
  "\<not> sublist ''</img>'' (process_tags x)"
  "\<not> sublist ''<watermark>'' (process_tags x)"
  "\<not> sublist ''</watermark>'' (process_tags x)"
  "\<not> sublist ''<page_number>'' (process_tags x)"
  "\<not> sublist ''</page_number>'' (process_tags x)"
  "\<not> sublist ''<signature>'' (process_tags x)"
  "\<not> sublist ''</signature>'' (process_tags x)"
  unfolding process_tags_def Let_def
  subgoal by ((rule escape_kills [OF escapes(1)] | (rule escape_keeps [OF _ escapes(1)], rule escapes))+)
  subgoal by ((rule escape_kills [OF escapes(2)] | (rule escape_keeps [OF _ escapes(2)], rule escapes))+)
  subgoal by ((rule escape_kills [OF escapes(3)] | (rule escape_keeps [OF _ escapes(3)], rule escapes))+)
  subgoal by ((rule escape_kills [OF escapes(4)] | (rule escape_keeps [OF _ escapes(4)], rule escapes))+)
  subgoal by ((rule escape_kills [OF escapes(5)] | (rule escape_keeps [OF _ escapes(5)], rule escapes))+)
  subgoal by ((rule escape_kills [OF escapes(6)] | (rule escape_keeps [OF _ escapes(6)], rule escapes))+)
  subgoal by ((rule escape_kills [OF escapes(7)] | (rule escape_keeps [OF _ escapes(7)], rule escapes))+)
  subgoal by ((rule escape_kills [OF escapes(8)] | (rule escape_keeps [OF _ escapes(8)], rule escapes))+)
  done

lemma process_tags_fixed:
  "\<not> sublist ''<img>'' y \<Longrightarrow> \<not> sublist ''</img>'' y \<Longrightarrow>
   \<not> sublist ''<watermark>'' y \<Longrightarrow> \<not> sublist ''</watermark>'' y \<Longrightarrow>
   \<not> sublist ''<page_number>'' y \<Longrightarrow> \<not> sublist ''</page_number>'' y \<Longrightarrow>
   \<not> sublist ''<signature>'' y \<Longrightarrow> \<not> sublist ''</signature>'' y \<Longrightarrow>
   process_tags y = y"
  unfolding process_tags_def Let_def by (simp add: str_replace_absent)

section \<open>The sanitizer\<close>

text \<open>
  C2. For every text \<open>x\<close>, sanitizing twice gives what sanitizing once gives, and the
  sanitized text has no occurrence of any of the eight raw tokens \<open><img>\<close>, \<open></img>\<close>,
  \<open><watermark>\<close>, \<open></watermark>\<close>, \<open><page_number>\<close>, \<open></page_number>\<close>, \<open><signature>\<close>,
  \<open></signature>\<close>.
\<close>

theorem process_tags_idempotent_no_raw_token:
  "process_tags (process_tags x) = process_tags x
   \<and> \<not> sublist ''<img>'' (process_tags x)
   \<and> \<not> sublist ''</img>'' (process_tags x)
   \<and> \<not> sublist ''<watermark>'' (process_tags x)
   \<and> \<not> sublist ''</watermark>'' (process_tags x)
   \<and> \<not> sublist ''<page_number>'' (process_tags x)
   \<and> \<not> sublist ''</page_number>'' (process_tags x)
   \<and> \<not> sublist ''<signature>'' (process_tags x)
   \<and> \<not> sublist ''</signature>'' (process_tags x)"
  using no_raw_token [of x] process_tags_fixed [of "process_tags x"] by blast

section \<open>The shape of a run\<close>

lemma tagged_append: "tagged t (xs @ ys) = tagged t xs @ tagged t ys"
  by (induction t xs rule: tagged.induct) simp_all

lemma calls_append: "calls (xs @ ys) = calls xs @ calls ys"
  by (induction xs rule: calls.induct) simp_all

lemma fragments_append: "fragments (xs @ ys) = fragments xs @ fragments ys"
  by (induction xs rule: fragments.induct) simp_all

lemma files_loop_append:
  "files_loop c (xs @ ys) = files_loop c xs @ files_loop c ys"
  by (induction xs) simp_all

lemma page_sep_nonempty: "page_sep \<noteq> []"
  by (simp add: page_sep_def nl_def)

lemma str_split_page_sep: "str_split page_sep s = Inr (split_scan page_sep [] s)"
  by (simp add: str_split_def page_sep_nonempty)

lemma init_client_ok: "snd (init_client e) = client_ok e"
  by (simp add: init_client_def client_ok_def MistralOCRClient_init_def split: option.splits)

lemma tagged_stream_loop:
  "t \<noteq> VllmChunk \<Longrightarrow> tagged t (stream_loop rid n cur chunks) = []"
  by (induction chunks arbitrary: cur) simp_all

lemma calls_stream_loop: "calls (stream_loop rid n cur chunks) = []"
  by (induction chunks arbitrary: cur) simp_all

lemma tagged_pages:
  "t \<noteq> MistralPage \<Longrightarrow> tagged t (map (\<lambda>(i, p). Yield MistralPage (g i p)) xs) = []"
  by (induction xs) auto

lemma calls_pages: "calls (map (\<lambda>(i, p). Yield MistralPage (g i p)) xs) = []"
  by (induction xs) auto

lemma run_files:
  "fs \<noteq> [] \<Longrightarrow>
   process_uploaded_files_to_markdown e (Some fs)
     = fst (init_client e) @ files_loop (client_ok e) fs"
  by (simp add: process_uploaded_files_to_markdown_def split_beta init_client_ok)

lemma process_file_ocr:
  "extract_text f = Inr md \<Longrightarrow>
   process_file True f =
     [Yield Attempt (attempt_notice (name f)), Call_extract_text_from_file (name f)]
     @ map (\<lambda>(i, page_md).
              Yield MistralPage
                (if length (split_scan page_sep [] md) > 1
                 then page_header (name f) i (length (split_scan page_sep [] md))
                        @ process_tags page_md @ page_sep
                 else process_tags page_md))
           (enumerate0 (split_scan page_sep [] md))
     @ [Yield FileComplete (finished_message (name f))]"
  by (simp add: process_file_def mistral_step_def str_split_page_sep Let_def)

lemma process_file_ocr_raises:
  "extract_text f = Inl x \<Longrightarrow>
   process_file True f =
     [Yield Attempt (attempt_notice (name f)), Call_extract_text_from_file (name f),
      Yield MistralError (mistral_error (name f) x)]
     @ process_file False f"
  by (simp add: process_file_def mistral_step_def Let_def split_beta)

lemma process_file_raster_raises:
  "images f = Inl x \<Longrightarrow>
   process_file False f =
     [Yield VllmNotice (vllm_notice (name f)), Call_convert_files_to_images [name f],
      Yield FallbackError (fallback_error (name f) x),
      Yield FileComplete (finished_message (name f))]"
  by (simp add: process_file_def vllm_step_def Let_def)

lemma process_file_no_images:
  "images f = Inr [] \<Longrightarrow>
   process_file False f =
     [Yield VllmNotice (vllm_notice (name f)), Call_convert_files_to_images [name f],
      Yield NoImages (no_images_warning (name f))]"
  by (simp add: process_file_def vllm_step_def Let_def)

lemma process_file_stream:
  "images f = Inr imgs \<Longrightarrow> imgs \<noteq> [] \<Longrightarrow>
   process_file False f =
     [Yield VllmNotice (vllm_notice (name f)), Call_convert_files_to_images [name f],
      Call_process_images_to_markdown_stream imgs,
      Call_convert_to_markdown_stream imgs]
     @ stream_loop (stream_request_id f) (length imgs) 1 (fst (markdown_stream f))
     @ (case snd (markdown_stream f) of
          None \<Rightarrow> []
        | Some x \<Rightarrow> [Yield StreamError (error_message (stream_request_id f) x)])
     @ [Yield FileComplete (finished_message (name f))]"
  by (simp add: process_file_def vllm_step_def process_images_to_markdown_stream_def
      stream_request_id_def Let_def split: option.splits)

lemma fallback_cases [consumes 1, case_names no_client raises]:
  "fallback c f \<Longrightarrow> (\<not> c \<Longrightarrow> P) \<Longrightarrow> (\<And>x. c \<Longrightarrow> extract_text f = Inl x \<Longrightarrow> P) \<Longrightarrow> P"
  by (cases c; cases "extract_text f") (auto simp: fallback_def)

lemma complete_of_file:
  "tagged FileComplete (process_file c f)
     = (if skipped c f then [] else [finished_message (name f)])"
proof (cases "fallback c f")
  case False
  then obtain md where "c" "extract_text f = Inr md"
    by (cases c; cases "extract_text f") (auto simp: fallback_def)
  with False show ?thesis
    by (simp add: process_file_ocr tagged_append tagged_pages skipped_def)
next
  case True
  have fb: "tagged FileComplete (process_file False f)
     = (if images f = Inr [] then [] else [finished_message (name f)])"
  proof (cases "images f")
    case (Inl x)
    then show ?thesis by (simp add: process_file_raster_raises)
  next
    case (Inr imgs)
    then show ?thesis
      by (cases "imgs = []")
        (simp_all add: process_file_no_images process_file_stream tagged_append
          tagged_stream_loop split: option.splits)
  qed
  from True show ?thesis
  proof (cases rule: fallback_cases)
    case no_client
    with fb True show ?thesis by (simp add: skipped_def)
  next
    case (raises x)
    with fb True show ?thesis by (simp add: skipped_def process_file_ocr_raises)
  qed
qed

lemma complete_of_loop:
  "tagged FileComplete (files_loop c fs)
     = map (\<lambda>f. finished_message (name f)) (filter (\<lambda>f. \<not> skipped c f) fs)"
  by (induction fs) (simp_all add: tagged_append complete_of_file)

lemma tagged_init: "t \<noteq> InitWarning \<Longrightarrow> tagged t (fst (init_client e)) = []"
  by (simp add: init_client_def split: sum.splits)

lemma run_split:
  "process_uploaded_files_to_markdown e (Some (before @ f # after))
     = fst (init_client e) @ files_loop (client_ok e) before
       @ process_file (client_ok e) f @ files_loop (client_ok e) after"
  by (simp add: run_files files_loop_append)

lemma process_file_fallback:
  assumes "fallback c f"
  shows "process_file c f =
     (if c then [Yield Attempt (attempt_notice (name f)), Call_extract_text_from_file (name f),
                 Yield MistralError (mistral_error (name f) (projl (extract_text f)))]
      else [])
     @ process_file False f"
  using assms by (cases rule: fallback_cases) (simp_all add: process_file_ocr_raises)

lemma calls_vllm_path:
  "calls (process_file False f) =
     Call_convert_files_to_images [name f]
     # (if page_images f = [] then []
        else [Call_process_images_to_markdown_stream (page_images f),
              Call_convert_to_markdown_stream (page_images f)])"
proof (cases "images f")
  case (Inl x)
  then show ?thesis by (simp add: process_file_raster_raises page_images_def)
next
  case (Inr imgs)
  then show ?thesis
    by (cases "imgs = []")
      (simp_all add: process_file_no_images process_file_stream page_images_def calls_append
        calls_stream_loop split: option.splits)
qed

lemma tagged_vllm_path:
  "tagged Attempt (process_file False f) = []"
  "tagged MistralPage (process_file False f) = []"
  "tagged MistralError (process_file False f) = []"
  "tagged VllmNotice (process_file False f) = [vllm_notice (name f)]"
  "tagged InitWarning (process_file False f) = []"
proof -
  have "tagged Attempt (process_file False f) = []
      \<and> tagged MistralPage (process_file False f) = []
      \<and> tagged MistralError (process_file False f) = []
      \<and> tagged VllmNotice (process_file False f) = [vllm_notice (name f)]
      \<and> tagged InitWarning (process_file False f) = []"
  proof (cases "images f")
    case (Inl x)
    then show ?thesis by (simp add: process_file_raster_raises)
  next
    case (Inr imgs)
    then show ?thesis
      by (cases "imgs = []")
        (simp_all add: process_file_no_images process_file_stream tagged_append
          tagged_stream_loop split: option.splits)
  qed
  then show "tagged Attempt (process_file False f) = []"
    "tagged MistralPage (process_file False f) = []"
    "tagged MistralError (process_file False f) = []"
    "tagged VllmNotice (process_file False f) = [vllm_notice (name f)]"
    "tagged InitWarning (process_file False f) = []"
    by simp_all
qed

lemma vllm_path_starts:
  "take 2 (process_file False f)
     = [Yield VllmNotice (vllm_notice (name f)), Call_convert_files_to_images [name f]]"
proof (cases "images f")
  case (Inl x)
  then show ?thesis by (simp add: process_file_raster_raises)
next
  case (Inr imgs)
  then show ?thesis
    by (cases "imgs = []") (simp_all add: process_file_no_images process_file_stream)
qed

lemma calls_files_loop_vllm:
  "calls (files_loop False fs)
     = concat (map (\<lambda>f. Call_convert_files_to_images [name f]
                          # (if page_images f = [] then []
                             else [Call_process_images_to_markdown_stream (page_images f),
                                   Call_convert_to_markdown_stream (page_images f)])) fs)"
  by (induction fs) (simp_all add: calls_append calls_vllm_path)

lemma tagged_files_loop_vllm:
  "tagged Attempt (files_loop False fs) = []"
  "tagged MistralPage (files_loop False fs) = []"
  "tagged MistralError (files_loop False fs) = []"
  "tagged InitWarning (files_loop False fs) = []"
  "tagged VllmNotice (files_loop False fs) = map (\<lambda>f. vllm_notice (name f)) fs"
  by (induction fs) (simp_all add: tagged_append tagged_vllm_path)

lemma no_construction_in_loop:
  "count_list (calls (files_loop False fs)) Call_MistralOCRClient = 0"
  by (induction fs) (simp_all add: calls_append calls_vllm_path)

lemma split_scan_nonempty: "split_scan sep cur s \<noteq> []"
  by (induction sep cur s rule: split_scan.induct) (subst split_scan.simps, simp)

lemma str_join_Cons: "xs \<noteq> [] \<Longrightarrow> str_join sep (x # xs) = x @ sep @ str_join sep xs"
  by (cases xs) simp_all

lemma str_join_split_scan: "str_join sep (split_scan sep cur s) = cur @ s"
proof (induction sep cur s rule: split_scan.induct)
  case (1 sep cur s)
  show ?case
  proof (cases "s = []")
    case True
    then show ?thesis by (subst split_scan.simps) simp
  next
    case False
    show ?thesis
    proof (cases "sep \<noteq> [] \<and> prefix sep s")
      case True
      with False have "split_scan sep cur s = cur # split_scan sep [] (drop (length sep) s)"
        by (subst split_scan.simps) simp
      moreover from True have "sep @ drop (length sep) s = s"
        by (auto simp: prefix_def)
      ultimately show ?thesis
        using "1.IH"(1) False True by (simp add: str_join_Cons split_scan_nonempty)
    next
      case no: False
      with False have "split_scan sep cur s = split_scan sep (cur @ [hd s]) (tl s)"
        by (subst split_scan.simps) auto
      with "1.IH"(2) False no show ?thesis by auto
    qed
  qed
qed

lemma length_chunks:
  "length (tagged VllmChunk (stream_loop rid n cur chunks)) = length chunks"
  by (induction chunks arbitrary: cur) simp_all

lemma chunks_sanitized:
  "list_all2 (\<lambda>out chunk. suffix (process_tags chunk) out)
     (tagged VllmChunk (stream_loop rid n cur chunks)) chunks"
  by (induction chunks arbitrary: cur) (simp_all add: suffix_def)

lemma chunks_single_page:
  "n \<le> 1 \<Longrightarrow> tagged VllmChunk (stream_loop rid n cur chunks) = map process_tags chunks"
  by (induction chunks arbitrary: cur) simp_all

lemma chunks_with_header:
  "1 < n \<Longrightarrow>
   list_all2 (\<lambda>out chunk. \<exists>p. out = progress_header rid p n @ process_tags chunk)
     (tagged VllmChunk (stream_loop rid n cur chunks)) chunks"
  by (induction chunks arbitrary: cur) auto

lemma pages_of_ocr:
  "extract_text f = Inr md \<Longrightarrow> tagged MistralPage (process_file True f) \<noteq> []"
proof -
  assume a: "extract_text f = Inr md"
  have own: "tagged MistralPage (map (\<lambda>(i, p). Yield MistralPage (g i p)) xs) = []
      \<longleftrightarrow> xs = []" for g :: "nat \<Rightarrow> string \<Rightarrow> string" and xs
    by (cases xs) auto
  have "enumerate0 (split_scan page_sep [] md) \<noteq> []"
    using split_scan_nonempty [of page_sep "[]" md] by (simp add: enumerate0_def)
  then show ?thesis
    by (simp add: process_file_ocr [OF a] tagged_append own)
qed

lemma chunks_of_ocr:
  "extract_text f = Inr md \<Longrightarrow> tagged VllmChunk (process_file True f) = []"
  by (simp add: process_file_ocr tagged_append tagged_pages)

lemma vllm_path_outputs:
  "tagged MistralPage (process_file False f) = []"
  "(tagged VllmChunk (process_file False f) @ vllm_errors (process_file False f) = [])
     = (page_images f \<noteq> [] \<and> markdown_stream f = ([], None))"
proof -
  show "tagged MistralPage (process_file False f) = []"
    by (rule tagged_vllm_path)
  show "(tagged VllmChunk (process_file False f) @ vllm_errors (process_file False f) = [])
     = (page_images f \<noteq> [] \<and> markdown_stream f = ([], None))"
  proof (cases "images f")
    case (Inl x)
    then show ?thesis
      by (simp add: process_file_raster_raises vllm_errors_def page_images_def)
  next
    case (Inr imgs)
    show ?thesis
    proof (cases "imgs = []")
      case True
      with Inr show ?thesis
        by (simp add: process_file_no_images vllm_errors_def page_images_def)
    next
      case False
      have "(tagged VllmChunk (stream_loop rid n cur chunks) = []) = (chunks = [])"
        for rid n cur chunks
        using length_chunks [of rid n cur chunks] by (metis length_0_conv)
      with Inr False show ?thesis
        by (cases "markdown_stream f")
          (auto simp: process_file_stream vllm_errors_def page_images_def tagged_append
            tagged_stream_loop split: option.splits)
    qed
  qed
qed

lemma str_count_sublist: "sub \<noteq> [] \<Longrightarrow> str_count sub s \<noteq> 0 \<Longrightarrow> sublist sub s"
proof (induction sub s rule: str_count.induct)
  case (1 sub s)
  show ?case
  proof (cases "s = []")
    case True
    with "1.prems" show ?thesis by (simp add: str_count.simps)
  next
    case False
    show ?thesis
    proof (cases "prefix sub s")
      case True
      then show ?thesis by simp
    next
      case no: False
      with False "1.prems" have "str_count sub (tl s) \<noteq> 0"
        by (subst (asm) str_count.simps) simp
      with "1.IH"(2) "1.prems" False no have "sublist sub (tl s)" by simp
      with False show ?thesis
        by (cases s) (simp_all add: sublist_Cons_right)
    qed
  qed
qed

lemma stuck_at_two:
  "1 < n \<Longrightarrow> \<forall>chunk\<in>set chunks. str_count ''---'' chunk = 1 \<Longrightarrow>
   tagged VllmChunk (stream_loop rid n 2 chunks)
     = map (\<lambda>chunk. progress_header rid 2 n @ process_tags chunk) chunks"
proof (induction chunks)
  case Nil
  then show ?case by simp
next
  case (Cons c cs)
  then have "str_count ''---'' c = 1" by simp
  moreover from this have "sublist ''---'' c"
    using str_count_sublist [of "''---''" c] by simp
  ultimately show ?case
    using Cons by (simp add: numeral_2_eq_2)
qed

lemma sublist_prefix_drop:
  "sublist u xs \<Longrightarrow> u \<noteq> [] \<Longrightarrow> \<exists>i<length xs. prefix u (drop i xs)"
proof -
  assume "sublist u xs" and ne: "u \<noteq> []"
  then obtain ps ss where xs: "xs = ps @ u @ ss"
    by (auto simp: sublist_def)
  with ne have "length ps < length xs" by (cases u) simp_all
  moreover from xs have "prefix u (drop (length ps) xs)" by simp
  ultimately show ?thesis by blast
qed

lemma split_scan_pieces:
  "sep \<noteq> [] \<Longrightarrow> \<forall>i<length cur. \<not> prefix sep (drop i (cur @ s)) \<Longrightarrow>
   \<forall>p\<in>set (split_scan sep cur s). \<not> sublist sep p"
proof (induction sep cur s rule: split_scan.induct)
  case (1 sep cur s)
  have cur_free: "\<not> sublist sep cur"
  proof
    assume "sublist sep cur"
    with "1.prems"(1) obtain i where i: "i < length cur" and p: "prefix sep (drop i cur)"
      by (blast dest: sublist_prefix_drop)
    from p have "prefix sep (drop i cur @ s)"
      by (rule prefix_prefix)
    with i have "prefix sep (drop i (cur @ s))" by simp
    with "1.prems"(2) i show False by blast
  qed
  show ?case
  proof (cases "s = []")
    case True
    with cur_free show ?thesis by (subst split_scan.simps) simp
  next
    case False
    show ?thesis
    proof (cases "prefix sep s")
      case True
      with False "1.prems"(1)
      have eq: "split_scan sep cur s = cur # split_scan sep [] (drop (length sep) s)"
        by (subst split_scan.simps) simp
      from "1.IH"(1) False True "1.prems"(1)
      have "\<forall>p\<in>set (split_scan sep [] (drop (length sep) s)). \<not> sublist sep p"
        by simp
      with cur_free eq show ?thesis by simp
    next
      case no: False
      with False have eq: "split_scan sep cur s = split_scan sep (cur @ [hd s]) (tl s)"
        by (subst split_scan.simps) simp
      from False have s: "[hd s] @ tl s = s" by simp
      have "\<forall>i<length (cur @ [hd s]). \<not> prefix sep (drop i ((cur @ [hd s]) @ tl s))"
      proof (intro allI impI)
        fix i assume "i < length (cur @ [hd s])"
        then consider "i < length cur" | "i = length cur" by fastforce
        then show "\<not> prefix sep (drop i ((cur @ [hd s]) @ tl s))"
        proof cases
          case 1
          with "1.prems"(2) s show ?thesis by (metis append.assoc)
        next
          case 2
          with no s show ?thesis by (metis append.assoc append_eq_conv_conj)
        qed
      qed
      with "1.IH"(2) False no "1.prems"(1) eq show ?thesis by simp
    qed
  qed
qed

lemma split_pages_free: "\<forall>p\<in>set (split_scan page_sep [] s). \<not> sublist page_sep p"
  by (rule split_scan_pieces) (simp_all add: page_sep_nonempty)

section \<open>The orchestrator\<close>

text \<open>
  C10. When the file list is empty or absent, the run yields exactly one fragment, the
  message that no files were uploaded, and ends without constructing the client, calling a
  backend or calling the rasterizer.
\<close>

theorem no_files:
  "process_uploaded_files_to_markdown e None = [Yield NoFiles no_files_message]
   \<and> process_uploaded_files_to_markdown e (Some []) = [Yield NoFiles no_files_message]
   \<and> fragments (process_uploaded_files_to_markdown e None) = [no_files_message]
   \<and> fragments (process_uploaded_files_to_markdown e (Some [])) = [no_files_message]
   \<and> calls (process_uploaded_files_to_markdown e None) = []
   \<and> calls (process_uploaded_files_to_markdown e (Some [])) = []"
  by (simp add: process_uploaded_files_to_markdown_def)


text \<open>
  C3. For a file that takes the VLLM path and whose rasterization returns no page image,
  the run yields one error fragment for the file (line 194), calls neither the driver
  nor the conversion routine for it, and goes on with the files that follow.
\<close>

theorem rasterization_empty:
  assumes "fallback (client_ok e) file_obj" and "images file_obj = Inr []"
  shows "process_uploaded_files_to_markdown e (Some (before @ file_obj # after))
           = fst (init_client e) @ files_loop (client_ok e) before
             @ process_file (client_ok e) file_obj @ files_loop (client_ok e) after
         \<and> process_file (client_ok e) file_obj
           = (if client_ok e
              then [Yield Attempt (attempt_notice (name file_obj)),
                    Call_extract_text_from_file (name file_obj),
                    Yield MistralError
                      (mistral_error (name file_obj) (projl (extract_text file_obj)))]
              else [])
             @ [Yield VllmNotice (vllm_notice (name file_obj)),
                Call_convert_files_to_images [name file_obj],
                Yield NoImages (no_images_warning (name file_obj))]
         \<and> tagged NoImages (process_file (client_ok e) file_obj)
           = [no_images_warning (name file_obj)]
         \<and> calls (process_file (client_ok e) file_obj)
           = (if client_ok e then [Call_extract_text_from_file (name file_obj)] else [])
             @ [Call_convert_files_to_images [name file_obj]]"
proof -
  have pf: "process_file (client_ok e) file_obj
           = (if client_ok e
              then [Yield Attempt (attempt_notice (name file_obj)),
                    Call_extract_text_from_file (name file_obj),
                    Yield MistralError
                      (mistral_error (name file_obj) (projl (extract_text file_obj)))]
              else [])
             @ [Yield VllmNotice (vllm_notice (name file_obj)),
                Call_convert_files_to_images [name file_obj],
                Yield NoImages (no_images_warning (name file_obj))]"
    using assms by (simp add: process_file_fallback process_file_no_images)
  show ?thesis
    unfolding pf by (simp add: run_split pf)
qed

theorem rasterization_empty_witness:
  "fallback (client_ok no_key) corrupt_pdf \<and> images corrupt_pdf = Inr []
   \<and> process_uploaded_files_to_markdown no_key (Some ([report_pdf] @ corrupt_pdf # [photo_jpg]))
       = files_loop False [report_pdf]
         @ [Yield VllmNotice (vllm_notice ''/tmp/corrupt.pdf''),
            Call_convert_files_to_images [''/tmp/corrupt.pdf''],
            Yield NoImages (no_images_warning ''/tmp/corrupt.pdf'')]
         @ files_loop False [photo_jpg]
   \<and> calls (process_file (client_ok no_key) corrupt_pdf)
       = [Call_convert_files_to_images [''/tmp/corrupt.pdf'']]"
proof -
  have ok: "client_ok no_key = False"
    by (simp add: client_ok_def no_key_def truthy_def)
  have fb: "fallback (client_ok no_key) corrupt_pdf"
    by (simp add: ok fallback_def)
  have im: "images corrupt_pdf = Inr []"
    by (simp add: corrupt_pdf_def)
  have nm: "name corrupt_pdf = ''/tmp/corrupt.pdf''"
    by (simp add: corrupt_pdf_def)
  have ini: "fst (init_client no_key) = []"
    by (simp add: init_client_def no_key_def truthy_def)
  from rasterization_empty [OF fb im, of "[report_pdf]" "[photo_jpg]"] fb im
  show ?thesis
    by (simp add: ok nm ini)
qed

text \<open>
  C1, as the program has it. The file-complete fragments of a run are those of the input
  files, in input order, except the files left at line 195: the files that take the VLLM
  path and whose rasterization returns no page image yield no file-complete fragment. So
  the number of file-complete fragments is the number of the other files.
\<close>

theorem file_complete_fragments:
  "tagged FileComplete (process_uploaded_files_to_markdown e (Some fs))
     = map (\<lambda>f. finished_message (name f)) (filter (\<lambda>f. \<not> skipped (client_ok e) f) fs)
   \<and> length (tagged FileComplete (process_uploaded_files_to_markdown e (Some fs)))
     = length (filter (\<lambda>f. \<not> skipped (client_ok e) f) fs)"
proof (cases "fs = []")
  case True
  then show ?thesis by (simp add: process_uploaded_files_to_markdown_def)
next
  case False
  then have "tagged FileComplete (process_uploaded_files_to_markdown e (Some fs))
     = map (\<lambda>f. finished_message (name f)) (filter (\<lambda>f. \<not> skipped (client_ok e) f) fs)"
    by (simp add: run_files tagged_append tagged_init complete_of_loop)
  then show ?thesis by simp
qed

text \<open>
  C1 as stated fails: with no credential set and one file whose rasterization returns no
  page image, the run has no file-complete fragment for one input file.
\<close>

theorem file_complete_counterexample:
  "length (tagged FileComplete (process_uploaded_files_to_markdown no_key (Some [corrupt_pdf])))
     \<noteq> length [corrupt_pdf]"
proof -
  have "skipped (client_ok no_key) corrupt_pdf"
    by (simp add: skipped_def fallback_def client_ok_def no_key_def truthy_def corrupt_pdf_def)
  then have "tagged FileComplete (process_uploaded_files_to_markdown no_key (Some [corrupt_pdf])) = []"
    by (simp add: run_files tagged_append tagged_init complete_of_file)
  then show ?thesis by simp
qed

text \<open>
  C5. When the client exists and the hosted OCR call raises for a file, the run yields the
  fragment of line 182 for that file, then takes the VLLM path for it: the notice of line
  187 and the rasterizer call, and the driver when the rasterizer returns page images. The
  events of the files that follow come after those of this file.
\<close>

theorem ocr_failure_falls_back:
  assumes "client_ok e" and "extract_text file_obj = Inl x"
  shows "process_uploaded_files_to_markdown e (Some (before @ file_obj # after))
           = fst (init_client e) @ files_loop True before
             @ process_file True file_obj @ files_loop True after
         \<and> take 5 (process_file True file_obj)
           = [Yield Attempt (attempt_notice (name file_obj)),
              Call_extract_text_from_file (name file_obj),
              Yield MistralError (mistral_error (name file_obj) x),
              Yield VllmNotice (vllm_notice (name file_obj)),
              Call_convert_files_to_images [name file_obj]]
         \<and> tagged MistralError (process_file True file_obj) = [mistral_error (name file_obj) x]
         \<and> calls (process_file True file_obj)
           = [Call_extract_text_from_file (name file_obj),
              Call_convert_files_to_images [name file_obj]]
             @ (if page_images file_obj = [] then []
                else [Call_process_images_to_markdown_stream (page_images file_obj),
                      Call_convert_to_markdown_stream (page_images file_obj)])"
proof -
  have pf: "process_file True file_obj
      = [Yield Attempt (attempt_notice (name file_obj)),
         Call_extract_text_from_file (name file_obj),
         Yield MistralError (mistral_error (name file_obj) x)]
        @ process_file False file_obj"
    using assms(2) by (rule process_file_ocr_raises)
  have "take 5 (process_file True file_obj)
      = [Yield Attempt (attempt_notice (name file_obj)),
         Call_extract_text_from_file (name file_obj),
         Yield MistralError (mistral_error (name file_obj) x)]
        @ take 2 (process_file False file_obj)"
    by (simp add: pf)
  moreover have "tagged MistralError (process_file True file_obj)
      = [mistral_error (name file_obj) x]"
    by (simp add: pf tagged_vllm_path)
  moreover have "calls (process_file True file_obj)
      = Call_extract_text_from_file (name file_obj) # calls (process_file False file_obj)"
    by (simp add: pf)
  moreover from assms(1)
  have "process_uploaded_files_to_markdown e (Some (before @ file_obj # after))
           = fst (init_client e) @ files_loop True before
             @ process_file True file_obj @ files_loop True after"
    by (simp add: run_split)
  ultimately show ?thesis
    by (simp add: vllm_path_starts calls_vllm_path)
qed

theorem ocr_failure_falls_back_witness:
  "client_ok with_key \<and> extract_text photo_jpg = Inl ''Service unavailable''
   \<and> process_uploaded_files_to_markdown with_key (Some ([] @ photo_jpg # [report_pdf]))
       = [Call_MistralOCRClient] @ process_file True photo_jpg @ process_file True report_pdf
   \<and> tagged MistralError (process_file True photo_jpg)
       = [mistral_error ''/tmp/photo.jpg'' ''Service unavailable'']
   \<and> calls (process_file True photo_jpg)
       = [Call_extract_text_from_file ''/tmp/photo.jpg'',
          Call_convert_files_to_images [''/tmp/photo.jpg''],
          Call_process_images_to_markdown_stream [''/tmp/photo.jpg''],
          Call_convert_to_markdown_stream [''/tmp/photo.jpg'']]"
proof -
  have ok: "client_ok with_key"
    by (simp add: client_ok_def with_key_def truthy_def)
  have ex: "extract_text photo_jpg = Inl ''Service unavailable''"
    by (simp add: photo_jpg_def)
  have ini: "fst (init_client with_key) = [Call_MistralOCRClient]"
    by (simp add: init_client_def with_key_def truthy_def MistralOCRClient_init_def)
  have nm: "name photo_jpg = ''/tmp/photo.jpg''" "page_images photo_jpg = [''/tmp/photo.jpg'']"
    by (simp_all add: photo_jpg_def page_images_def)
  from ocr_failure_falls_back [OF ok ex, of "[]" "[report_pdf]"] ok ex
  show ?thesis
    by (simp add: ini nm)
qed

text \<open>
  C6. When the credential is set and constructing the client raises, on a batch that has
  files: the run yields exactly one warning of line 149, constructs once, never calls the
  hosted OCR and yields no attempt notice, and takes every file through the rasterizer and,
  when there are page images, the driver.
\<close>

theorem client_construction_fails:
  assumes "fs \<noteq> []" and "truthy (MISTRAL_API_KEY e)" and "Mistral_raises e = Some m"
  shows "process_uploaded_files_to_markdown e (Some fs)
           = [Call_MistralOCRClient, Yield InitWarning (init_warning m)] @ files_loop False fs
         \<and> tagged InitWarning (process_uploaded_files_to_markdown e (Some fs)) = [init_warning m]
         \<and> count_list (calls (process_uploaded_files_to_markdown e (Some fs)))
             Call_MistralOCRClient = 1
         \<and> calls (process_uploaded_files_to_markdown e (Some fs))
           = Call_MistralOCRClient
             # concat (map (\<lambda>f. Call_convert_files_to_images [name f]
                          # (if page_images f = [] then []
                             else [Call_process_images_to_markdown_stream (page_images f),
                                   Call_convert_to_markdown_stream (page_images f)])) fs)
         \<and> tagged Attempt (process_uploaded_files_to_markdown e (Some fs)) = []
         \<and> tagged MistralPage (process_uploaded_files_to_markdown e (Some fs)) = []
         \<and> tagged VllmNotice (process_uploaded_files_to_markdown e (Some fs))
           = map (\<lambda>f. vllm_notice (name f)) fs"
proof -
  from assms(2,3) have ini:
    "fst (init_client e) = [Call_MistralOCRClient, Yield InitWarning (init_warning m)]"
    by (simp add: init_client_def MistralOCRClient_init_def)
  from assms(3) have ok: "client_ok e = False"
    by (simp add: client_ok_def)
  from assms(1) have run: "process_uploaded_files_to_markdown e (Some fs)
      = [Call_MistralOCRClient, Yield InitWarning (init_warning m)] @ files_loop False fs"
    by (simp add: run_files ini ok)
  have once: "count_list (calls (process_uploaded_files_to_markdown e (Some fs)))
      Call_MistralOCRClient = 1"
    unfolding run by (simp add: no_construction_in_loop)
  have rest: "calls (process_uploaded_files_to_markdown e (Some fs))
      = Call_MistralOCRClient
        # concat (map (\<lambda>f. Call_convert_files_to_images [name f]
                     # (if page_images f = [] then []
                        else [Call_process_images_to_markdown_stream (page_images f),
                              Call_convert_to_markdown_stream (page_images f)])) fs)"
    unfolding run by (simp add: calls_files_loop_vllm)
  have tags: "tagged InitWarning (process_uploaded_files_to_markdown e (Some fs)) = [init_warning m]"
    "tagged Attempt (process_uploaded_files_to_markdown e (Some fs)) = []"
    "tagged MistralPage (process_uploaded_files_to_markdown e (Some fs)) = []"
    "tagged VllmNotice (process_uploaded_files_to_markdown e (Some fs))
       = map (\<lambda>f. vllm_notice (name f)) fs"
    unfolding run by (simp_all add: tagged_files_loop_vllm)
  from run once rest tags show ?thesis by blast
qed

theorem client_construction_fails_witness:
  "[report_pdf, photo_jpg] \<noteq> [] \<and> truthy (MISTRAL_API_KEY broken_client)
   \<and> Mistral_raises broken_client = Some ''bad key''
   \<and> tagged InitWarning
         (process_uploaded_files_to_markdown broken_client (Some [report_pdf, photo_jpg]))
       = [init_warning ''bad key'']
   \<and> calls (process_uploaded_files_to_markdown broken_client (Some [report_pdf, photo_jpg]))
       = [Call_MistralOCRClient,
          Call_convert_files_to_images [''/tmp/report.pdf''],
          Call_process_images_to_markdown_stream
            [''/tmp/report_0.png'', ''/tmp/report_1.png'', ''/tmp/report_2.png''],
          Call_convert_to_markdown_stream
            [''/tmp/report_0.png'', ''/tmp/report_1.png'', ''/tmp/report_2.png''],
          Call_convert_files_to_images [''/tmp/photo.jpg''],
          Call_process_images_to_markdown_stream [''/tmp/photo.jpg''],
          Call_convert_to_markdown_stream [''/tmp/photo.jpg'']]
   \<and> tagged Attempt
         (process_uploaded_files_to_markdown broken_client (Some [report_pdf, photo_jpg])) = []"
proof -
  have k: "truthy (MISTRAL_API_KEY broken_client)"
    by (simp add: broken_client_def truthy_def)
  have r: "Mistral_raises broken_client = Some ''bad key''"
    by (simp add: broken_client_def)
  have ne: "[report_pdf, photo_jpg] \<noteq> []"
    by simp
  have nm: "name report_pdf = ''/tmp/report.pdf''" "name photo_jpg = ''/tmp/photo.jpg''"
    "page_images report_pdf = [''/tmp/report_0.png'', ''/tmp/report_1.png'', ''/tmp/report_2.png'']"
    "page_images photo_jpg = [''/tmp/photo.jpg'']"
    by (simp_all add: report_pdf_def photo_jpg_def page_images_def)
  note w = client_construction_fails [OF ne k r]
  from w have "tagged InitWarning
         (process_uploaded_files_to_markdown broken_client (Some [report_pdf, photo_jpg]))
       = [init_warning ''bad key'']"
    by blast
  moreover from w have "calls (process_uploaded_files_to_markdown broken_client (Some [report_pdf, photo_jpg]))
       = Call_MistralOCRClient
         # concat (map (\<lambda>f. Call_convert_files_to_images [name f]
                     # (if page_images f = [] then []
                        else [Call_process_images_to_markdown_stream (page_images f),
                              Call_convert_to_markdown_stream (page_images f)]))
                  [report_pdf, photo_jpg])"
    by blast
  moreover from w have "tagged Attempt
         (process_uploaded_files_to_markdown broken_client (Some [report_pdf, photo_jpg])) = []"
    by blast
  ultimately show ?thesis
    using k r by (simp add: nm)
qed

text \<open>
  C7. When the client exists and the hosted OCR call returns a text for a file, the text is
  split on the page separator (joining the pages with the separator gives the text back,
  and no page has the separator),
  and the file's events are the attempt notice, the call, one fragment per page in order,
  and the file-complete fragment. A page's fragment is the sanitized page, with the header
  \<open>Page i+1 of n\<close> before it and the separator after it exactly when there is more than one
  page. The witness is the text \<open>Page1\n\n---\n\nPage2\<close>.
\<close>

theorem ocr_success_pages:
  fixes markdown_output :: string and pages :: "string list"
  defines "pages \<equiv> split_scan page_sep [] markdown_output"
  assumes "client_ok e" and "extract_text file_obj = Inr markdown_output"
  shows "process_uploaded_files_to_markdown e (Some (before @ file_obj # after))
           = fst (init_client e) @ files_loop True before
             @ process_file True file_obj @ files_loop True after
         \<and> process_file True file_obj
           = [Yield Attempt (attempt_notice (name file_obj)),
              Call_extract_text_from_file (name file_obj)]
             @ map (\<lambda>(i, page_md).
                      Yield MistralPage
                        (if 1 < length pages
                         then page_header (name file_obj) i (length pages)
                                @ process_tags page_md @ page_sep
                         else process_tags page_md))
                   (enumerate0 pages)
             @ [Yield FileComplete (finished_message (name file_obj))]
         \<and> str_join page_sep pages = markdown_output
         \<and> (\<forall>page_md\<in>set pages. \<not> sublist page_sep page_md)
         \<and> length (tagged MistralPage (process_file True file_obj)) = length pages
         \<and> tagged FileComplete (process_file True file_obj) = [finished_message (name file_obj)]"
proof -
  have pf: "process_file True file_obj
           = [Yield Attempt (attempt_notice (name file_obj)),
              Call_extract_text_from_file (name file_obj)]
             @ map (\<lambda>(i, page_md).
                      Yield MistralPage
                        (if 1 < length pages
                         then page_header (name file_obj) i (length pages)
                                @ process_tags page_md @ page_sep
                         else process_tags page_md))
                   (enumerate0 pages)
             @ [Yield FileComplete (finished_message (name file_obj))]"
    unfolding pages_def using assms(3) by (rule process_file_ocr)
  have tagged_own: "tagged MistralPage (map (\<lambda>(i, p). Yield MistralPage (g i p)) xs)
      = map (\<lambda>(i, p). g i p) xs" for g :: "nat \<Rightarrow> string \<Rightarrow> string" and xs
    by (induction xs) auto
  have n: "length (tagged MistralPage (process_file True file_obj)) = length pages"
    unfolding pf by (simp add: tagged_append tagged_own enumerate0_def)
  have c: "tagged FileComplete (process_file True file_obj) = [finished_message (name file_obj)]"
    unfolding pf by (simp add: tagged_append tagged_pages)
  have j: "str_join page_sep pages = markdown_output"
    unfolding pages_def by (simp add: str_join_split_scan)
  have free: "\<forall>page_md\<in>set pages. \<not> sublist page_sep page_md"
    unfolding pages_def by (rule split_pages_free)
  from assms(2)
  have "process_uploaded_files_to_markdown e (Some (before @ file_obj # after))
           = fst (init_client e) @ files_loop True before
             @ process_file True file_obj @ files_loop True after"
    by (simp add: run_split)
  with pf n c j free show ?thesis by blast
qed

theorem ocr_success_pages_witness:
  "client_ok with_key \<and> extract_text report_pdf = Inr (''Page1'' @ page_sep @ ''Page2'')
   \<and> fragments (process_file True report_pdf)
       = [attempt_notice ''/tmp/report.pdf'',
          page_header ''/tmp/report.pdf'' 0 2 @ ''Page1'' @ page_sep,
          page_header ''/tmp/report.pdf'' 1 2 @ ''Page2'' @ page_sep,
          finished_message ''/tmp/report.pdf'']
   \<and> \<not> sublist page_sep ''Page1'' \<and> \<not> sublist page_sep ''Page2''
   \<and> sublist ''(Page 1 of 2)'' (page_header ''/tmp/report.pdf'' 0 2)
   \<and> sublist ''(Page 2 of 2)'' (page_header ''/tmp/report.pdf'' 1 2)
   \<and> tagged FileComplete (process_file True report_pdf) = [finished_message ''/tmp/report.pdf'']"
proof -
  have ok: "client_ok with_key"
    by (simp add: client_ok_def with_key_def truthy_def)
  have ex: "extract_text report_pdf = Inr (''Page1'' @ page_sep @ ''Page2'')"
    by (simp add: report_pdf_def)
  have nm: "name report_pdf = ''/tmp/report.pdf''"
    by (simp add: report_pdf_def)
  have sp: "split_scan page_sep [] (''Page1'' @ page_sep @ ''Page2'') = [''Page1'', ''Page2'']"
    by (simp add: page_sep_def nl_def split_scan.simps)
  have pt: "process_tags ''Page1'' = ''Page1''" "process_tags ''Page2'' = ''Page2''"
    unfolding process_tags_def Let_def by (simp_all add: str_replace.simps)
  have en: "enumerate0 [''Page1'', ''Page2''] = [(0, ''Page1''), (1, ''Page2'')]"
    by (simp add: enumerate0_def upt_rec)
  have h1: "sublist ''(Page 1 of 2)'' (page_header ''/tmp/report.pdf'' 0 2)"
    by (simp add: page_header_def glyph_page_def basename_def nl_def str_nat.simps digit_def
        sublist_Cons_right)
  have h2: "sublist ''(Page 2 of 2)'' (page_header ''/tmp/report.pdf'' 1 2)"
    by (simp add: page_header_def glyph_page_def basename_def nl_def str_nat.simps digit_def
        sublist_Cons_right)
  note w = ocr_success_pages [OF ok ex, of "[]" "[]"]
  from w have pf: "process_file True report_pdf
      = [Yield Attempt (attempt_notice (name report_pdf)),
         Call_extract_text_from_file (name report_pdf)]
        @ map (\<lambda>(i, page_md).
                 Yield MistralPage
                   (if 1 < length (split_scan page_sep [] (''Page1'' @ page_sep @ ''Page2''))
                    then page_header (name report_pdf) i
                           (length (split_scan page_sep [] (''Page1'' @ page_sep @ ''Page2'')))
                           @ process_tags page_md @ page_sep
                    else process_tags page_md))
              (enumerate0 (split_scan page_sep [] (''Page1'' @ page_sep @ ''Page2'')))
        @ [Yield FileComplete (finished_message (name report_pdf))]"
    by blast
  have "fragments (process_file True report_pdf)
       = [attempt_notice ''/tmp/report.pdf'',
          page_header ''/tmp/report.pdf'' 0 2 @ ''Page1'' @ page_sep,
          page_header ''/tmp/report.pdf'' 1 2 @ ''Page2'' @ page_sep,
          finished_message ''/tmp/report.pdf'']"
    unfolding pf sp en by (simp add: pt nm numeral_2_eq_2)
  moreover from w
  have "tagged FileComplete (process_file True report_pdf) = [finished_message (name report_pdf)]"
    by blast
  moreover from w
  have "\<forall>page_md\<in>set (split_scan page_sep [] (''Page1'' @ page_sep @ ''Page2'')).
          \<not> sublist page_sep page_md"
    by blast
  then have "\<not> sublist page_sep ''Page1'' \<and> \<not> sublist page_sep ''Page2''"
    unfolding sp by simp
  ultimately show ?thesis
    using ok ex h1 h2 by (simp add: nm)
qed

lemma outputs_of_file:
  "tagged MistralPage (process_file c file_obj) = []
     \<or> tagged VllmChunk (process_file c file_obj) = []"
  "(tagged MistralPage (process_file c file_obj)
      @ tagged VllmChunk (process_file c file_obj)
      @ vllm_errors (process_file c file_obj) = [])
   = (fallback c file_obj \<and> page_images file_obj \<noteq> []
      \<and> markdown_stream file_obj = ([], None))"
proof -
  show "tagged MistralPage (process_file c file_obj) = []
      \<or> tagged VllmChunk (process_file c file_obj) = []"
  proof (cases "fallback c file_obj")
    case True
    then show ?thesis
      by (simp add: process_file_fallback tagged_append vllm_path_outputs)
  next
    case False
    then obtain md where "c" "extract_text file_obj = Inr md"
      by (cases c; cases "extract_text file_obj") (auto simp: fallback_def)
    then show ?thesis by (simp add: chunks_of_ocr)
  qed
  show "(tagged MistralPage (process_file c file_obj)
      @ tagged VllmChunk (process_file c file_obj)
      @ vllm_errors (process_file c file_obj) = [])
   = (fallback c file_obj \<and> page_images file_obj \<noteq> []
      \<and> markdown_stream file_obj = ([], None))"
  proof (cases "fallback c file_obj")
    case True
    have "vllm_errors (xs @ ys) = vllm_errors ys" if "vllm_errors xs = []"
         "tagged NoImages xs = []" "tagged StreamError xs = []" "tagged FallbackError xs = []"
      for xs ys
      using that by (simp add: vllm_errors_def tagged_append)
    then have "vllm_errors (process_file c file_obj) = vllm_errors (process_file False file_obj)"
      using True by (simp add: process_file_fallback vllm_errors_def tagged_append)
    moreover have "tagged VllmChunk (process_file c file_obj)
        = tagged VllmChunk (process_file False file_obj)"
      using True by (simp add: process_file_fallback tagged_append)
    moreover have "tagged MistralPage (process_file c file_obj) = []"
      using True by (simp add: process_file_fallback tagged_append vllm_path_outputs)
    ultimately show ?thesis
      using True vllm_path_outputs(2) [of file_obj] by simp
  next
    case False
    then obtain md where "c" "extract_text file_obj = Inr md"
      by (cases c; cases "extract_text file_obj") (auto simp: fallback_def)
    with False show ?thesis by (simp add: pages_of_ocr)
  qed
qed

lemma ocr_only:
  assumes "\<not> fallback c file_obj"
  shows "tagged MistralPage (process_file c file_obj) \<noteq> []"
    and "tagged VllmChunk (process_file c file_obj) = []"
    and "error_fragments (process_file c file_obj) = []"
proof -
  from assms obtain md where c: "c" and md: "extract_text file_obj = Inr md"
    by (cases c; cases "extract_text file_obj") (auto simp: fallback_def)
  from c md show "tagged MistralPage (process_file c file_obj) \<noteq> []"
    by (simp add: pages_of_ocr)
  from c md show "tagged VllmChunk (process_file c file_obj) = []"
    by (simp add: chunks_of_ocr)
  from c md show "error_fragments (process_file c file_obj) = []"
    by (simp add: process_file_ocr error_fragments_def vllm_errors_def tagged_append
        tagged_pages)
qed

lemma vllm_only:
  assumes "fallback c file_obj"
  shows "tagged MistralPage (process_file c file_obj) = []"
  using assms by (simp add: process_file_fallback tagged_append vllm_path_outputs)

text \<open>
  C8. For every file of a batch whose conversion stream answers as the specification has
  it, page content comes from exactly one backend or an error or warning fragment stands
  in for it: never page content from both backends, and never neither page content nor an
  error or warning fragment. More closely: a file that takes the VLLM path has no hosted
  OCR page, and has a VLLM chunk or an error fragment of the VLLM path; any other file has
  hosted OCR pages, no VLLM chunk, and no error or warning fragment.
\<close>

theorem one_backend_per_file:
  assumes "stream_answers file_obj"
  shows "process_uploaded_files_to_markdown e (Some (before @ file_obj # after))
           = fst (init_client e) @ files_loop (client_ok e) before
             @ process_file (client_ok e) file_obj @ files_loop (client_ok e) after
         \<and> (tagged MistralPage (process_file (client_ok e) file_obj) = []
              \<or> tagged VllmChunk (process_file (client_ok e) file_obj) = [])
         \<and> tagged MistralPage (process_file (client_ok e) file_obj)
             @ tagged VllmChunk (process_file (client_ok e) file_obj)
             @ error_fragments (process_file (client_ok e) file_obj) \<noteq> []
         \<and> (if fallback (client_ok e) file_obj
             then tagged MistralPage (process_file (client_ok e) file_obj) = []
                  \<and> tagged VllmChunk (process_file (client_ok e) file_obj)
                      @ vllm_errors (process_file (client_ok e) file_obj) \<noteq> []
             else tagged MistralPage (process_file (client_ok e) file_obj) \<noteq> []
                  \<and> tagged VllmChunk (process_file (client_ok e) file_obj) = []
                  \<and> error_fragments (process_file (client_ok e) file_obj) = [])"
proof -
  define c where "c = client_ok e"
  let ?ev = "process_file c file_obj"
  from assms have loud: "page_images file_obj = [] \<or> markdown_stream file_obj \<noteq> ([], None)"
    by (simp add: stream_answers_def split: if_splits)
  have both: "tagged MistralPage ?ev = [] \<or> tagged VllmChunk ?ev = []"
    by (rule outputs_of_file)
  from loud outputs_of_file(2) [of c file_obj]
  have some: "tagged MistralPage ?ev @ tagged VllmChunk ?ev @ vllm_errors ?ev \<noteq> []"
    by blast
  then have any: "tagged MistralPage ?ev @ tagged VllmChunk ?ev @ error_fragments ?ev \<noteq> []"
    by (auto simp: error_fragments_def)
  have path: "if fallback c file_obj
      then tagged MistralPage ?ev = [] \<and> tagged VllmChunk ?ev @ vllm_errors ?ev \<noteq> []
      else tagged MistralPage ?ev \<noteq> [] \<and> tagged VllmChunk ?ev = []
           \<and> error_fragments ?ev = []"
  proof (cases "fallback c file_obj")
    case True
    with some vllm_only [OF True] show ?thesis by simp
  next
    case False
    with ocr_only [OF False] show ?thesis by simp
  qed
  have "process_uploaded_files_to_markdown e (Some (before @ file_obj # after))
      = fst (init_client e) @ files_loop c before @ ?ev @ files_loop c after"
    unfolding c_def by (rule run_split)
  with both any path show ?thesis
    unfolding c_def by blast
qed

theorem one_backend_per_file_witness:
  "stream_answers photo_jpg \<and> fallback (client_ok with_key) photo_jpg
   \<and> tagged MistralPage (process_file (client_ok with_key) photo_jpg) = []
   \<and> tagged VllmChunk (process_file (client_ok with_key) photo_jpg)
       @ vllm_errors (process_file (client_ok with_key) photo_jpg) \<noteq> []
   \<and> tagged MistralPage (process_file (client_ok with_key) photo_jpg)
       @ tagged VllmChunk (process_file (client_ok with_key) photo_jpg)
       @ error_fragments (process_file (client_ok with_key) photo_jpg) \<noteq> []
   \<and> stream_answers report_pdf
   \<and> tagged MistralPage (process_file (client_ok with_key) report_pdf) \<noteq> []
   \<and> tagged VllmChunk (process_file (client_ok with_key) report_pdf) = []
   \<and> error_fragments (process_file (client_ok with_key) report_pdf) = []"
proof -
  have ok: "client_ok with_key"
    by (simp add: client_ok_def with_key_def truthy_def)
  have a1: "stream_answers photo_jpg"
    by (simp add: stream_answers_def page_images_def photo_jpg_def)
  have a2: "stream_answers report_pdf"
    by (simp add: stream_answers_def page_images_def report_pdf_def)
  have f1: "fallback (client_ok with_key) photo_jpg"
    using ok by (simp add: fallback_def photo_jpg_def)
  have f2: "\<not> fallback (client_ok with_key) report_pdf"
    using ok by (simp add: fallback_def report_pdf_def)
  note w1 = one_backend_per_file [OF a1, of with_key "[]" "[]"]
  note w2 = one_backend_per_file [OF a2, of with_key "[]" "[]"]
  from w1 have p1: "if fallback (client_ok with_key) photo_jpg
      then tagged MistralPage (process_file (client_ok with_key) photo_jpg) = []
           \<and> tagged VllmChunk (process_file (client_ok with_key) photo_jpg)
               @ vllm_errors (process_file (client_ok with_key) photo_jpg) \<noteq> []
      else tagged MistralPage (process_file (client_ok with_key) photo_jpg) \<noteq> []
           \<and> tagged VllmChunk (process_file (client_ok with_key) photo_jpg) = []
           \<and> error_fragments (process_file (client_ok with_key) photo_jpg) = []"
    by blast
  from w1 have q1: "tagged MistralPage (process_file (client_ok with_key) photo_jpg)
       @ tagged VllmChunk (process_file (client_ok with_key) photo_jpg)
       @ error_fragments (process_file (client_ok with_key) photo_jpg) \<noteq> []"
    by blast
  from w2 have p2: "if fallback (client_ok with_key) report_pdf
      then tagged MistralPage (process_file (client_ok with_key) report_pdf) = []
           \<and> tagged VllmChunk (process_file (client_ok with_key) report_pdf)
               @ vllm_errors (process_file (client_ok with_key) report_pdf) \<noteq> []
      else tagged MistralPage (process_file (client_ok with_key) report_pdf) \<noteq> []
           \<and> tagged VllmChunk (process_file (client_ok with_key) report_pdf) = []
           \<and> error_fragments (process_file (client_ok with_key) report_pdf) = []"
    by blast
  from p1 f1 have r1: "tagged MistralPage (process_file (client_ok with_key) photo_jpg) = []"
    "tagged VllmChunk (process_file (client_ok with_key) photo_jpg)
       @ vllm_errors (process_file (client_ok with_key) photo_jpg) \<noteq> []"
    by simp_all
  from p2 f2 have r2: "tagged MistralPage (process_file (client_ok with_key) report_pdf) \<noteq> []"
    "tagged VllmChunk (process_file (client_ok with_key) report_pdf) = []"
    "error_fragments (process_file (client_ok with_key) report_pdf) = []"
    by simp_all
  from a1 a2 f1 q1 r1 r2 show ?thesis
    by blast
qed

section \<open>The VLLM driver\<close>

text \<open>
  C9, as the program has it. For a file that reaches the driver, the orchestrator passes on
  the driver's chunks unchanged. Each content chunk is the sanitized chunk of the conversion
  routine, alone when there is one page image and after a progress header when there are
  more. The error fragment of line 132 is passed on as built from the exception's message:
  it is not sanitized.
\<close>

theorem driver_chunks_sanitized:
  assumes "fallback c file_obj" and "images file_obj = Inr image_paths" and "image_paths \<noteq> []"
  shows "tagged VllmChunk (process_file c file_obj)
           = tagged VllmChunk
               (process_images_to_markdown_stream image_paths
                  (take 8 (uuid_file file_obj) @ ''-vllm'') (uuid_stream file_obj)
                  (markdown_stream file_obj))
         \<and> list_all2 (\<lambda>out chunk. suffix (process_tags chunk) out)
             (tagged VllmChunk (process_file c file_obj)) (fst (markdown_stream file_obj))
         \<and> (length image_paths = 1 \<longrightarrow>
               tagged VllmChunk (process_file c file_obj)
                 = map process_tags (fst (markdown_stream file_obj)))
         \<and> (1 < length image_paths \<longrightarrow>
               list_all2 (\<lambda>out chunk. \<exists>p. out = progress_header (stream_request_id file_obj) p
                                                (length image_paths) @ process_tags chunk)
                 (tagged VllmChunk (process_file c file_obj)) (fst (markdown_stream file_obj)))
         \<and> tagged StreamError (process_file c file_obj)
           = (case snd (markdown_stream file_obj) of
                None \<Rightarrow> []
              | Some x \<Rightarrow> [error_message (stream_request_id file_obj) x])"
proof -
  let ?loop = "stream_loop (stream_request_id file_obj) (length image_paths) 1
                 (fst (markdown_stream file_obj))"
  have drv: "tagged VllmChunk
               (process_images_to_markdown_stream image_paths
                  (take 8 (uuid_file file_obj) @ ''-vllm'') (uuid_stream file_obj)
                  (markdown_stream file_obj))
      = tagged VllmChunk ?loop"
    using assms(3)
    by (simp add: process_images_to_markdown_stream_def stream_request_id_def Let_def
        tagged_append split: option.splits)
  have "tagged VllmChunk (process_file c file_obj) = tagged VllmChunk (process_file False file_obj)"
    using assms(1) by (simp add: process_file_fallback tagged_append)
  then have own: "tagged VllmChunk (process_file c file_obj) = tagged VllmChunk ?loop"
    by (simp add: process_file_stream [OF assms(2,3)] tagged_append split: option.splits)
  have "tagged StreamError (process_file c file_obj)
      = tagged StreamError (process_file False file_obj)"
    using assms(1) by (simp add: process_file_fallback tagged_append)
  then have err: "tagged StreamError (process_file c file_obj)
      = (case snd (markdown_stream file_obj) of
           None \<Rightarrow> []
         | Some x \<Rightarrow> [error_message (stream_request_id file_obj) x])"
    by (simp add: process_file_stream [OF assms(2,3)] tagged_append tagged_stream_loop
        split: option.splits)
  have one: "tagged VllmChunk ?loop = map process_tags (fst (markdown_stream file_obj))"
    if "length image_paths = 1"
    using that by (simp add: chunks_single_page)
  have many: "list_all2 (\<lambda>out chunk. \<exists>p. out = progress_header (stream_request_id file_obj) p
                                                (length image_paths) @ process_tags chunk)
                 (tagged VllmChunk ?loop) (fst (markdown_stream file_obj))"
    if "1 < length image_paths"
    using that by (rule chunks_with_header)
  from drv own err one many chunks_sanitized show ?thesis
    by simp
qed

theorem driver_chunks_sanitized_witness:
  "fallback False failing_png \<and> images failing_png = Inr [''/tmp/scan.png'']
   \<and> tagged VllmChunk (process_file False failing_png) = [''&lt;img&gt;cat&lt;/img&gt;'']
   \<and> tagged StreamError (process_file False failing_png)
       = [error_message ''cccccccc-vllm-dddddddd'' ''cannot parse <img>'']
   \<and> fallback False report_pdf
   \<and> images report_pdf
       = Inr [''/tmp/report_0.png'', ''/tmp/report_1.png'', ''/tmp/report_2.png'']
   \<and> list_all2 (\<lambda>out chunk. \<exists>p. out = progress_header ''3f2b8c1e-vllm-9d4e7a60'' p 3
                                        @ process_tags chunk)
         (tagged VllmChunk (process_file False report_pdf)) [''one---'', ''two---'', ''three---'']"
proof -
  have fb: "fallback False failing_png"
    by (simp add: fallback_def)
  have im: "images failing_png = Inr [''/tmp/scan.png'']"
    by (simp add: failing_png_def)
  have ne: "[''/tmp/scan.png''] \<noteq> []"
    by simp
  have st: "markdown_stream failing_png = ([''<img>cat</img>''], Some ''cannot parse <img>'')"
    by (simp add: failing_png_def)
  have rid: "stream_request_id failing_png = ''cccccccc-vllm-dddddddd''"
    by (simp add: stream_request_id_def failing_png_def)
  have pt: "process_tags ''<img>cat</img>'' = ''&lt;img&gt;cat&lt;/img&gt;''"
    unfolding process_tags_def Let_def by (simp add: str_replace.simps)
  have fb3: "fallback False report_pdf"
    by (simp add: fallback_def)
  have im3: "images report_pdf
      = Inr [''/tmp/report_0.png'', ''/tmp/report_1.png'', ''/tmp/report_2.png'']"
    by (simp add: report_pdf_def)
  have ne3: "[''/tmp/report_0.png'', ''/tmp/report_1.png'', ''/tmp/report_2.png''] \<noteq> []"
    by simp
  note w = driver_chunks_sanitized [OF fb im ne]
  from w have "length [''/tmp/scan.png''] = 1 \<longrightarrow>
      tagged VllmChunk (process_file False failing_png)
        = map process_tags (fst (markdown_stream failing_png))"
    by blast
  then have "tagged VllmChunk (process_file False failing_png)
      = map process_tags (fst (markdown_stream failing_png))"
    by simp
  moreover from w have "tagged StreamError (process_file False failing_png)
      = (case snd (markdown_stream failing_png) of
           None \<Rightarrow> []
         | Some x \<Rightarrow> [error_message (stream_request_id failing_png) x])"
    by blast
  moreover have "list_all2 (\<lambda>out chunk. \<exists>p. out = progress_header ''3f2b8c1e-vllm-9d4e7a60'' p 3
                                        @ process_tags chunk)
         (tagged VllmChunk (process_file False report_pdf)) [''one---'', ''two---'', ''three---'']"
  proof -
    have rid3: "stream_request_id report_pdf = ''3f2b8c1e-vllm-9d4e7a60''"
      by (simp add: stream_request_id_def report_pdf_def)
    have st3: "fst (markdown_stream report_pdf) = [''one---'', ''two---'', ''three---'']"
      by (simp add: report_pdf_def)
    have n3: "length [''/tmp/report_0.png'', ''/tmp/report_1.png'', ''/tmp/report_2.png''] = 3"
      by simp
    from driver_chunks_sanitized [OF fb3 im3 ne3]
    have "1 < length [''/tmp/report_0.png'', ''/tmp/report_1.png'', ''/tmp/report_2.png''] \<longrightarrow>
        list_all2 (\<lambda>out chunk. \<exists>p. out = progress_header (stream_request_id report_pdf) p
            (length [''/tmp/report_0.png'', ''/tmp/report_1.png'', ''/tmp/report_2.png''])
            @ process_tags chunk)
          (tagged VllmChunk (process_file False report_pdf)) (fst (markdown_stream report_pdf))"
      by blast
    then show ?thesis
      unfolding rid3 st3 n3 by simp
  qed
  ultimately show ?thesis
    using fb im fb3 im3 by (simp add: st rid pt)
qed

text \<open>
  C9 as stated fails: when the conversion stream raises with a message that has the raw
  token \<open><img>\<close>, the error fragment yielded has the raw token, and sanitizing would
  change it.
\<close>

theorem stream_error_counterexample:
  "tagged StreamError (process_file (client_ok no_key) failing_png)
     = [error_message ''cccccccc-vllm-dddddddd'' ''cannot parse <img>'']
   \<and> sublist ''<img>'' (error_message ''cccccccc-vllm-dddddddd'' ''cannot parse <img>'')
   \<and> process_tags (error_message ''cccccccc-vllm-dddddddd'' ''cannot parse <img>'')
     \<noteq> error_message ''cccccccc-vllm-dddddddd'' ''cannot parse <img>''"
proof -
  have ok: "client_ok no_key = False"
    by (simp add: client_ok_def no_key_def truthy_def)
  have im: "images failing_png = Inr [''/tmp/scan.png'']"
    by (simp add: failing_png_def)
  have st: "markdown_stream failing_png = ([''<img>cat</img>''], Some ''cannot parse <img>'')"
    by (simp add: failing_png_def)
  have rid: "stream_request_id failing_png = ''cccccccc-vllm-dddddddd''"
    by (simp add: stream_request_id_def failing_png_def)
  have "tagged StreamError (process_file False failing_png)
      = [error_message ''cccccccc-vllm-dddddddd'' ''cannot parse <img>'']"
    using process_file_stream [OF im]
    by (simp add: st rid tagged_append tagged_stream_loop)
  moreover have raw: "sublist ''<img>''
      (error_message ''cccccccc-vllm-dddddddd'' ''cannot parse <img>'')"
  proof -
    have "sublist ''<img>'' (''cannot parse '' @ ''<img>'' @ [])"
      by (rule sublist_appendI)
    then have "sublist ''<img>'' ''cannot parse <img>''"
      by simp
    moreover have "sublist ''cannot parse <img>''
        (error_message ''cccccccc-vllm-dddddddd'' ''cannot parse <img>'')"
      unfolding error_message_def by (intro suffix_imp_sublist) (simp add: suffix_def)
    ultimately show ?thesis
      by (rule sublist_order.order_trans)
  qed
  moreover have "process_tags (error_message ''cccccccc-vllm-dddddddd'' ''cannot parse <img>'')
      \<noteq> error_message ''cccccccc-vllm-dddddddd'' ''cannot parse <img>''"
    using raw no_raw_token(1) [of "error_message ''cccccccc-vllm-dddddddd'' ''cannot parse <img>''"]
    by auto
  ultimately show ?thesis
    by (simp add: ok)
qed


text \<open>What lines 119 to 126 yield when every chunk has exactly one \<open>---\<close>: the page is
  set to the count in the chunk just yielded plus one, which is 2.\<close>

lemma headers_with_one_delimiter:
  assumes "\<forall>chunk\<in>set chunks. str_count ''---'' chunk = 1"
  shows "tagged VllmChunk
           (process_images_to_markdown_stream images_list request_id_prefix uuid (chunks, raised))
         = (if 1 < length images_list
            then (case chunks of
                    [] \<Rightarrow> []
                  | first # rest \<Rightarrow>
                      (progress_header (request_id_prefix @ ''-'' @ take 8 uuid) 1
                         (length images_list) @ process_tags first)
                      # map (\<lambda>chunk.
                               progress_header (request_id_prefix @ ''-'' @ take 8 uuid) 2
                                 (length images_list) @ process_tags chunk)
                            rest)
            else map process_tags chunks)"
proof (cases "1 < length images_list")
  case False
  then show ?thesis
    by (simp add: process_images_to_markdown_stream_def Let_def tagged_append chunks_single_page
        split: option.splits)
next
  case True
  let ?rid = "request_id_prefix @ ''-'' @ take 8 uuid"
  have drv: "tagged VllmChunk
           (process_images_to_markdown_stream images_list request_id_prefix uuid (chunks, raised))
      = tagged VllmChunk (stream_loop ?rid (length images_list) 1 chunks)"
    using True
    by (auto simp: process_images_to_markdown_stream_def Let_def tagged_append
        split: option.splits)
  show ?thesis
  proof (cases chunks)
    case Nil
    with True drv show ?thesis by simp
  next
    case (Cons first rest)
    with assms have one: "str_count ''---'' first = 1"
      and more: "\<forall>chunk\<in>set rest. str_count ''---'' chunk = 1"
      by simp_all
    from one have "sublist ''---'' first"
      using str_count_sublist [of "''---''" first] by simp
    with one have "tagged VllmChunk (stream_loop ?rid (length images_list) 1 (first # rest))
        = (progress_header ?rid 1 (length images_list) @ process_tags first)
          # tagged VllmChunk (stream_loop ?rid (length images_list) 2 rest)"
      using True by (simp add: numeral_2_eq_2)
    with stuck_at_two [OF True more] Cons True drv show ?thesis
      by simp
  qed
qed

text \<open>
  C4. For a multi-page input whose chunks have exactly one page delimiter each, the k-th
  chunk is to be headed page k of n. The program keeps a running page for this (lines 110,
  120, 125 and 126) but sets it from the count in the latest chunk instead of advancing
  it. On three page images and the chunks \<open>one---\<close>, \<open>two---\<close>, \<open>three---\<close> the headers
  read page 1 of 3, page 2 of 3 and page 2 of 3: the third chunk is not headed page 3 of 3.
\<close>

theorem progress_pages_failing_input:
  "length [''/tmp/report_0.png'', ''/tmp/report_1.png'', ''/tmp/report_2.png''] = 3
   \<and> str_count ''---'' ''one---'' = 1 \<and> str_count ''---'' ''two---'' = 1
   \<and> str_count ''---'' ''three---'' = 1
   \<and> tagged VllmChunk
        (process_images_to_markdown_stream
           [''/tmp/report_0.png'', ''/tmp/report_1.png'', ''/tmp/report_2.png'']
           ''3f2b8c1e-vllm'' ''9d4e7a60-0000-4000-8000-000000000000''
           ([''one---'', ''two---'', ''three---''], None))
     = [progress_header ''3f2b8c1e-vllm-9d4e7a60'' 1 3 @ ''one---'',
        progress_header ''3f2b8c1e-vllm-9d4e7a60'' 2 3 @ ''two---'',
        progress_header ''3f2b8c1e-vllm-9d4e7a60'' 2 3 @ ''three---'']
   \<and> tagged VllmChunk
        (process_images_to_markdown_stream
           [''/tmp/report_0.png'', ''/tmp/report_1.png'', ''/tmp/report_2.png'']
           ''3f2b8c1e-vllm'' ''9d4e7a60-0000-4000-8000-000000000000''
           ([''one---'', ''two---'', ''three---''], None)) ! 2
     = progress_header ''3f2b8c1e-vllm-9d4e7a60'' 2 3 @ ''three---''
   \<and> sublist ''(Processing page 2 of 3)''
        (progress_header ''3f2b8c1e-vllm-9d4e7a60'' 2 3 @ ''three---'')
   \<and> \<not> sublist ''page 3 of 3'' (progress_header ''3f2b8c1e-vllm-9d4e7a60'' 2 3 @ ''three---'')"
proof -
  have c: "str_count ''---'' ''one---'' = 1" "str_count ''---'' ''two---'' = 1"
    "str_count ''---'' ''three---'' = 1"
    by (simp_all add: str_count.simps)
  have s: "sublist ''---'' ''one---''" "sublist ''---'' ''two---''" "sublist ''---'' ''three---''"
    by (simp_all add: sublist_Cons_right)
  have pt: "process_tags ''three---'' = ''three---''" "process_tags ''one---'' = ''one---''"
    "process_tags ''two---'' = ''two---''"
    unfolding process_tags_def Let_def by (simp_all add: str_replace.simps)
  have whole: "tagged VllmChunk
        (process_images_to_markdown_stream
           [''/tmp/report_0.png'', ''/tmp/report_1.png'', ''/tmp/report_2.png'']
           ''3f2b8c1e-vllm'' ''9d4e7a60-0000-4000-8000-000000000000''
           ([''one---'', ''two---'', ''three---''], None))
     = [progress_header ''3f2b8c1e-vllm-9d4e7a60'' 1 3 @ ''one---'',
        progress_header ''3f2b8c1e-vllm-9d4e7a60'' 2 3 @ ''two---'',
        progress_header ''3f2b8c1e-vllm-9d4e7a60'' 2 3 @ ''three---'']"
    by (simp add: process_images_to_markdown_stream_def Let_def c s pt numeral_2_eq_2
        numeral_3_eq_3)
  have third: "tagged VllmChunk
        (process_images_to_markdown_stream
           [''/tmp/report_0.png'', ''/tmp/report_1.png'', ''/tmp/report_2.png'']
           ''3f2b8c1e-vllm'' ''9d4e7a60-0000-4000-8000-000000000000''
           ([''one---'', ''two---'', ''three---''], None)) ! 2
     = progress_header ''3f2b8c1e-vllm-9d4e7a60'' 2 3 @ ''three---''"
    by (simp add: process_images_to_markdown_stream_def Let_def c s pt numeral_2_eq_2
        numeral_3_eq_3)
  have line120: "progress_header ''3f2b8c1e-vllm-9d4e7a60'' 2 3 @ ''three---''
      = glyph_page @ '' **VLLM Conversion Progress** `[Request 3f2b8c1e-vllm-9d4e7a60]` (Processing page 2 of 3)''
        @ nl @ nl @ ''three---''"
    by (simp add: progress_header_def str_nat.simps digit_def)
  have yes: "sublist ''(Processing page 2 of 3)''
        (progress_header ''3f2b8c1e-vllm-9d4e7a60'' 2 3 @ ''three---'')"
    unfolding line120 by (simp add: glyph_page_def nl_def sublist_Cons_right)
  have no: "\<not> sublist ''page 3 of 3''
        (progress_header ''3f2b8c1e-vllm-9d4e7a60'' 2 3 @ ''three---'')"
    unfolding line120 by (simp add: glyph_page_def nl_def sublist_Cons_right)
  have len: "length [''/tmp/report_0.png'', ''/tmp/report_1.png'', ''/tmp/report_2.png''] = 3"
    by simp
  from len c whole third yes no show ?thesis
    by blast
qed

end
